theory Spec2Isabelle
  imports Main "HOL-Library.Word" "HOL-Library.AList"
begin

unbundle bit_operations_syntax

section \<open>Common ground: bytes, Python exceptions, results\<close>

text \<open>
  A Python \<open>bytes\<close> value is a list of 8-bit words; Python integers are unbounded and
  are modelled by \<open>int\<close>. An exception is a value of type \<open>error\<close>. A computation
  that contains a \<open>while\<close> loop which may run forever has a result of type
  \<open>(error + 'a) option\<close>: \<open>None\<close> is "does not return", \<open>Some (Inl e)\<close> is
  "raises e" and \<open>Some (Inr x)\<close> is "returns x".
\<close>

type_synonym byte = "8 word"

datatype error = ValueError | IndexError | StructError | AssertionError | UnicodeError

type_synonym 'a result = "(error + 'a) option"

definition ok :: "'a \<Rightarrow> 'a result" where
  "ok x = Some (Inr x)"

definition raise :: "error \<Rightarrow> 'a result" where
  "raise e = Some (Inl e)"

definition bind_r :: "'a result \<Rightarrow> ('a \<Rightarrow> 'b result) \<Rightarrow> 'b result" where
  "bind_r m f = Option.bind m (\<lambda>r. case r of Inl e \<Rightarrow> Some (Inl e) | Inr x \<Rightarrow> f x)"

definition lift_option :: "'a option \<Rightarrow> 'a result" where
  "lift_option m = map_option Inr m"

text \<open>Python's \<open>for i in range(...)\<close> over a state, stopping at the first exception.\<close>

primrec for_range :: "nat list \<Rightarrow> (nat \<Rightarrow> 's \<Rightarrow> 's result) \<Rightarrow> 's \<Rightarrow> 's result" where
  "for_range [] f s = ok s"
| "for_range (i # is) f s = bind_r (f i s) (for_range is f)"

text \<open>\<open>xs[i]\<close> and \<open>xs[i] = v\<close> on a Python list with a non-negative index.\<close>

definition list_get :: "'a list \<Rightarrow> nat \<Rightarrow> 'a result" where
  "list_get xs i = (if i < length xs then ok (xs ! i) else raise IndexError)"

definition list_set :: "'a list \<Rightarrow> nat \<Rightarrow> 'a \<Rightarrow> 'a list result" where
  "list_set xs i v = (if i < length xs then ok (xs[i := v]) else raise IndexError)"

section \<open>Range decoder (lzma\_compressor.py, class RangeDecoder)\<close>

definition TOP_VALUE :: int where
  "TOP_VALUE = push_bit 24 1"

definition BIT_MODEL_TOTAL :: int where
  "BIT_MODEL_TOTAL = push_bit 11 1"

record RangeDecoder =
  data_d :: "byte list"
  pos_d :: nat
  low_d :: int
  range_d :: int
  code_d :: int

definition read_byte :: "RangeDecoder \<Rightarrow> int \<times> RangeDecoder" where
  "read_byte d =
     (if pos_d d < length (data_d d)
      then (uint (data_d d ! pos_d d), d\<lparr>pos_d := pos_d d + 1\<rparr>)
      else (0, d))"

definition init_step :: "RangeDecoder \<Rightarrow> RangeDecoder" where
  "init_step d = (let (b, d') = read_byte d in d'\<lparr>code_d := push_bit 8 (code_d d') OR b\<rparr>)"

definition RangeDecoder_init :: "byte list \<Rightarrow> RangeDecoder" where
  "RangeDecoder_init data =
     (init_step ^^ 5) \<lparr>data_d = data, pos_d = 0, low_d = 0, range_d = 0xFFFFFFFF, code_d = 0\<rparr>"

text \<open>The re-normalisation loop of \<open>decode_bit\<close>: \<open>while self.range < TOP_VALUE\<close>.\<close>

partial_function (option) decode_normalize :: "RangeDecoder \<Rightarrow> RangeDecoder option" where
  "decode_normalize d =
     (if range_d d < TOP_VALUE
      then decode_normalize
             ((snd (read_byte d))
                \<lparr>code_d := push_bit 8 (code_d d) OR fst (read_byte d),
                 range_d := push_bit 8 (range_d d) AND 0xFFFFFFFF\<rparr>)
      else Some d)"

declare decode_normalize.simps [code]

definition decode_bit :: "RangeDecoder \<Rightarrow> int \<Rightarrow> ((int \<times> int) \<times> RangeDecoder) option" where
  "decode_bit d model =
     (let bound = drop_bit 11 (range_d d) * model in
      if code_d d < bound
      then map_option (\<lambda>d'. ((0, model + drop_bit 5 (BIT_MODEL_TOTAL - model)), d'))
             (decode_normalize (d\<lparr>range_d := bound\<rparr>))
      else map_option (\<lambda>d'. ((1, model - drop_bit 5 model), d'))
             (decode_normalize (d\<lparr>code_d := code_d d - bound, range_d := range_d d - bound\<rparr>)))"

definition is_finished :: "RangeDecoder \<Rightarrow> bool" where
  "is_finished d = (pos_d d \<ge> length (data_d d))"

section \<open>The LZMA coder's models (lzma\_compressor.py, class LZMACompressor)\<close>

definition WINDOW_SIZE_lzma :: nat where "WINDOW_SIZE_lzma = 2 ^ 16"
definition MIN_MATCH_lzma :: int where "MIN_MATCH_lzma = 3"
definition MAX_MATCH_lzma :: nat where "MAX_MATCH_lzma = 273"
definition NUM_STATES :: nat where "NUM_STATES = 12"
definition NUM_REP_DISTANCES :: nat where "NUM_REP_DISTANCES = 4"
definition LIT_CONTEXT_BITS :: nat where "LIT_CONTEXT_BITS = 3"
definition POS_STATE_BITS :: nat where "POS_STATE_BITS = 2"
definition NUM_POS_STATES_MAX :: nat where "NUM_POS_STATES_MAX = 2 ^ POS_STATE_BITS"

record LZMACompressor =
  level :: int
  is_match :: "int list list"
  is_rep :: "int list list"
  is_rep0 :: "int list list"
  is_rep1 :: "int list list"
  is_rep0_long :: "int list list"
  lit_models :: "int list list list"
  len_low :: "int list list"
  len_mid :: "int list list"
  len_high :: "int list"
  dist_models :: "int list"
  rep_distances :: "int list"

definition LZMACompressor_init :: "int \<Rightarrow> LZMACompressor" where
  "LZMACompressor_init lvl =
     \<lparr>level = lvl,
      is_match = replicate NUM_POS_STATES_MAX (replicate NUM_STATES 1024),
      is_rep = replicate NUM_POS_STATES_MAX (replicate NUM_STATES 1024),
      is_rep0 = replicate NUM_POS_STATES_MAX (replicate NUM_STATES 1024),
      is_rep1 = replicate NUM_POS_STATES_MAX (replicate NUM_STATES 1024),
      is_rep0_long = replicate NUM_POS_STATES_MAX (replicate NUM_STATES 1024),
      lit_models = replicate (2 ^ LIT_CONTEXT_BITS) (replicate NUM_STATES (replicate 0x201 1024)),
      len_low = replicate NUM_POS_STATES_MAX (replicate (2 ^ 3) 1024),
      len_mid = replicate NUM_POS_STATES_MAX (replicate (2 ^ 3) 1024),
      len_high = replicate (2 ^ 8) 1024,
      dist_models = replicate (2 ^ 6) 1024,
      rep_distances = []\<rparr>"

text \<open>
  \<open>_decode_distance\<close>: two bits into \<open>slot\<close>, the early return on \<open>slot < 4\<close>, and
  the two further loops of the source behind it.
\<close>

definition decode_distance_bit ::
  "nat \<Rightarrow> nat \<Rightarrow> LZMACompressor \<times> RangeDecoder \<times> int \<Rightarrow> (LZMACompressor \<times> RangeDecoder \<times> int) result" where
  "decode_distance_bit off i = (\<lambda>(self, decoder, acc).
     bind_r (list_get (dist_models self) (i + off)) (\<lambda>model.
     bind_r (lift_option (decode_bit decoder model)) (\<lambda>((bit, new_model), decoder').
     bind_r (list_set (dist_models self) (i + off) new_model) (\<lambda>dm.
     ok (self\<lparr>dist_models := dm\<rparr>, decoder', acc OR push_bit i bit)))))"

definition decode_distance ::
  "LZMACompressor \<Rightarrow> RangeDecoder \<Rightarrow> (int \<times> LZMACompressor \<times> RangeDecoder) result" where
  "decode_distance self decoder =
     bind_r (for_range [0..<2] (decode_distance_bit 0) (self, decoder, 0)) (\<lambda>(self, decoder, slot).
     if slot < 4 then ok (slot + 1, self, decoder)
     else
       bind_r (for_range [0..<7] (decode_distance_bit 2) (self, decoder, 0)) (\<lambda>(self, decoder, distance).
       if distance \<le> 127 then ok (distance + 1, self, decoder)
       else
         bind_r (for_range [0..<16] (decode_distance_bit 9) (self, decoder, 0)) (\<lambda>(self, decoder, distance).
         ok (distance + 128 + 1, self, decoder))))"

section \<open>Exceptions without loops that may diverge; struct.pack and struct.unpack\<close>

text \<open>
  The LZ77, Huffman and container modules have no loop that can run forever, so their
  results are plain sums: \<open>Inl e\<close> is "raises e" and \<open>Inr x\<close> is "returns x".
\<close>

definition bind_e :: "error + 'a \<Rightarrow> ('a \<Rightarrow> error + 'b) \<Rightarrow> error + 'b" where
  "bind_e m f = (case m of Inl e \<Rightarrow> Inl e | Inr x \<Rightarrow> f x)"

text \<open>Python's \<open>data[a:b]\<close> for \<open>0 \<le> a \<le> b\<close>: it never raises and stops at the end of the buffer.\<close>

definition py_slice :: "'a list \<Rightarrow> nat \<Rightarrow> nat \<Rightarrow> 'a list" where
  "py_slice xs a b = take (b - a) (drop a xs)"

text \<open>
  Python sequence indexing \<open>xs[i]\<close>: a negative index counts from the end, and an index
  outside \<open>-len(xs) .. len(xs) - 1\<close> raises IndexError.
\<close>

definition py_index :: "'a list \<Rightarrow> int \<Rightarrow> error + 'a" where
  "py_index xs i =
     (if 0 \<le> i \<and> i < int (length xs) then Inr (xs ! nat i)
      else if i < 0 \<and> - int (length xs) \<le> i then Inr (xs ! nat (int (length xs) + i))
      else Inl IndexError)"

text \<open>
  \<open>struct.pack\<close> and \<open>struct.unpack\<close> of an unsigned integer of \<open>n\<close> bytes
  (formats \<open>B\<close>, \<open>H\<close>, \<open>I\<close>, \<open>Q\<close> for 1, 2, 4, 8 bytes), little-endian as on the
  platforms the archiver runs on and as the wire formats say. A value outside
  \<open>0 .. 256^n - 1\<close> raises \<open>struct.error\<close>, and so does a buffer of another length.
\<close>

fun le_bytes :: "nat \<Rightarrow> int \<Rightarrow> byte list" where
  "le_bytes 0 v = []"
| "le_bytes (Suc n) v = word_of_int v # le_bytes n (v div 256)"

fun le_value :: "byte list \<Rightarrow> int" where
  "le_value [] = 0"
| "le_value (b # bs) = uint b + 256 * le_value bs"

definition pack :: "nat \<Rightarrow> int \<Rightarrow> error + byte list" where
  "pack n v = (if 0 \<le> v \<and> v < 256 ^ n then Inr (le_bytes n v) else Inl StructError)"

definition unpack :: "nat \<Rightarrow> byte list \<Rightarrow> error + int" where
  "unpack n bs = (if length bs = n then Inr (le_value bs) else Inl StructError)"

definition pack_B :: "int \<Rightarrow> error + byte list" where "pack_B = pack 1"
definition pack_H :: "int \<Rightarrow> error + byte list" where "pack_H = pack 2"
definition pack_I :: "int \<Rightarrow> error + byte list" where "pack_I = pack 4"
definition pack_Q :: "int \<Rightarrow> error + byte list" where "pack_Q = pack 8"
definition unpack_H :: "byte list \<Rightarrow> error + int" where "unpack_H = unpack 2"
definition unpack_I :: "byte list \<Rightarrow> error + int" where "unpack_I = unpack 4"
definition unpack_Q :: "byte list \<Rightarrow> error + int" where "unpack_Q = unpack 8"

section \<open>LZ77 (compressor.py)\<close>

definition WINDOW_SIZE :: nat where "WINDOW_SIZE = 32 * 1024"
definition MIN_MATCH :: nat where "MIN_MATCH = 3"
definition MAX_MATCH :: nat where "MAX_MATCH = 258"
definition HASH_BITS :: nat where "HASH_BITS = 16"
definition HASH_SIZE :: nat where "HASH_SIZE = push_bit HASH_BITS 1"

definition LITERAL :: int where "LITERAL = 0"
definition MATCH :: int where "MATCH = 1"

text \<open>
  class Token: four integer fields, \<open>Token(type, length=0, distance=0, literal=0)\<close>;
  \<open>__eq__\<close> compares the four fields, as equality of records does.
\<close>

record Token =
  type_t :: int
  length_t :: int
  distance_t :: int
  literal_t :: int

definition literal_token :: "int \<Rightarrow> Token" where
  "literal_token v = \<lparr>type_t = LITERAL, length_t = 0, distance_t = 0, literal_t = v\<rparr>"

definition match_token :: "int \<Rightarrow> int \<Rightarrow> Token" where
  "match_token len dist = \<lparr>type_t = MATCH, length_t = len, distance_t = dist, literal_t = 0\<rparr>"

subsection \<open>class MatchFinder\<close>

text \<open>\<open>hash_chains\<close> is a \<open>defaultdict(list)\<close>: a missing key reads as the empty list.\<close>

record MatchFinder =
  hash_chains :: "nat \<Rightarrow> nat list"
  data_m :: "byte list"

definition MatchFinder_init :: MatchFinder where
  "MatchFinder_init = \<lparr>hash_chains = (\<lambda>_. []), data_m = []\<rparr>"

definition hash3 :: "byte list \<Rightarrow> nat \<Rightarrow> nat" where
  "hash3 data pos =
     (if pos + 3 > length data then 0
      else
        let b0 = unat (data ! pos);
            b1 = (if pos + 1 < length data then unat (data ! (pos + 1)) else 0);
            b2 = (if pos + 2 < length data then unat (data ! (pos + 2)) else 0)
        in ((b0 * 65599 + b1) * 65599 + b2) AND (HASH_SIZE - 1))"

text \<open>
  \<open>update\<close>: \<open>for pos in range(start_pos, len(data) - 2)\<close>; the range is empty when
  \<open>len(data) < 2\<close>, as \<open>[start_pos..<length data - 2]\<close> is with the subtraction of
  natural numbers.
\<close>

definition update :: "MatchFinder \<Rightarrow> byte list \<Rightarrow> MatchFinder" where
  "update m data =
     (let start_pos = length (data_m m) in
      fold (\<lambda>pos m'. let h = hash3 data pos
                      in m'\<lparr>hash_chains := (hash_chains m')(h := hash_chains m' h @ [pos])\<rparr>)
           [start_pos..<length data - 2]
           (m\<lparr>data_m := data\<rparr>))"

text \<open>
  The inner \<open>while\<close> of \<open>find_best_match\<close>. Both reads are inside the buffer whenever
  the first conjunct holds, since \<open>max_possible_length \<le> len(data) - pos\<close> and
  \<open>candidate_pos < pos\<close> there.
\<close>

function extend_match :: "byte list \<Rightarrow> nat \<Rightarrow> nat \<Rightarrow> nat \<Rightarrow> nat \<Rightarrow> nat" where
  "extend_match data candidate_pos pos max_possible_length match_length =
     (if match_length < max_possible_length \<and>
         data ! (candidate_pos + match_length) = data ! (pos + match_length)
      then extend_match data candidate_pos pos max_possible_length (match_length + 1)
      else match_length)"
  by pat_completeness auto
termination
  by (relation "measure (\<lambda>(data, candidate_pos, pos, max_possible_length, match_length).
                  max_possible_length - match_length)") auto

declare extend_match.simps [simp del]

text \<open>The \<open>for candidate_pos in reversed(candidates)\<close> loop, with its \<open>continue\<close> and \<open>break\<close>.\<close>

fun scan_candidates :: "byte list \<Rightarrow> nat \<Rightarrow> nat \<Rightarrow> nat list \<Rightarrow> nat \<times> nat \<Rightarrow> nat \<times> nat" where
  "scan_candidates data pos window_start [] (best_length, best_distance) =
     (best_length, best_distance)"
| "scan_candidates data pos window_start (candidate_pos # rest) (best_length, best_distance) =
     (if candidate_pos \<ge> pos \<or> candidate_pos < window_start
      then scan_candidates data pos window_start rest (best_length, best_distance)
      else
        let max_possible_length = min MAX_MATCH (length data - pos);
            match_length = extend_match data candidate_pos pos max_possible_length 0
        in if match_length > best_length
           then (if match_length \<ge> 258
                 then (match_length, pos - candidate_pos)
                 else scan_candidates data pos window_start rest (match_length, pos - candidate_pos))
           else scan_candidates data pos window_start rest (best_length, best_distance))"

definition find_best_match :: "MatchFinder \<Rightarrow> nat \<Rightarrow> nat \<Rightarrow> (nat \<times> nat) option" where
  "find_best_match m pos window_start =
     (if pos + MIN_MATCH > length (data_m m) then None
      else
        let h = hash3 (data_m m) pos;
            candidates = hash_chains m h;
            (best_length, best_distance) =
               scan_candidates (data_m m) pos window_start (rev candidates) (MIN_MATCH - 1, 0)
        in if best_length \<ge> MIN_MATCH then Some (best_length, best_distance) else None)"

subsection \<open>class LZ77Compressor\<close>

record LZ77Compressor =
  window_size :: nat
  min_match :: nat
  max_match :: nat
  matcher :: MatchFinder

definition LZ77Compressor_init :: LZ77Compressor where
  "LZ77Compressor_init =
     \<lparr>window_size = WINDOW_SIZE, min_match = MIN_MATCH, max_match = MAX_MATCH,
      matcher = MatchFinder_init\<rparr>"

text \<open>
  The \<open>while pos < len(data)\<close> loop of \<open>compress\<close>. A match that \<open>find_best_match\<close>
  returns is at least \<open>MIN_MATCH = 3\<close> long (its last test), so \<open>pos\<close> grows in both
  branches and the loop ends.
\<close>

function compress_loop :: "LZ77Compressor \<Rightarrow> byte list \<Rightarrow> nat \<Rightarrow> Token list \<Rightarrow> Token list" where
  "compress_loop c data pos tokens =
     (if pos < length data
      then
        let window_start = nat (max 0 (int pos - int (window_size c)));
            match = find_best_match (matcher c) pos window_start
        in (case match of
              Some (len, distance) \<Rightarrow>
                if len \<ge> min_match c
                then compress_loop c data (pos + len) (tokens @ [match_token (int len) (int distance)])
                else compress_loop c data (pos + 1) (tokens @ [literal_token (uint (data ! pos))])
            | None \<Rightarrow> compress_loop c data (pos + 1) (tokens @ [literal_token (uint (data ! pos))]))
      else tokens)"
  by pat_completeness auto
termination
  by (relation "measure (\<lambda>(c, data, pos, tokens). length data - pos)")
     (auto simp: find_best_match_def Let_def MIN_MATCH_def split: if_splits prod.splits)

declare compress_loop.simps [simp del]

definition compress :: "LZ77Compressor \<Rightarrow> byte list \<Rightarrow> Token list" where
  "compress c data =
     (if data = [] then []
      else compress_loop (c\<lparr>matcher := update (matcher c) data\<rparr>) data 0 [])"

text \<open>
  \<open>decompress\<close>. \<open>output.append(v)\<close> on a bytearray raises ValueError unless
  \<open>0 \<le> v < 256\<close>; \<open>output[match_pos]\<close> is Python indexing; \<open>range(token.length)\<close>
  is empty for a length that is not positive.
\<close>

fun copy_match :: "nat \<Rightarrow> byte list \<Rightarrow> int \<Rightarrow> error + byte list" where
  "copy_match 0 output match_pos = Inr output"
| "copy_match (Suc n) output match_pos =
     bind_e (py_index output match_pos) (\<lambda>b. copy_match n (output @ [b]) (match_pos + 1))"

fun decompress_loop :: "Token list \<Rightarrow> byte list \<Rightarrow> error + byte list" where
  "decompress_loop [] output = Inr output"
| "decompress_loop (token # rest) output =
     (if type_t token = LITERAL
      then (if 0 \<le> literal_t token \<and> literal_t token < 256
            then decompress_loop rest (output @ [word_of_int (literal_t token)])
            else Inl ValueError)
      else if type_t token = MATCH
      then
        (let match_pos = int (length output) - distance_t token
         in bind_e (copy_match (nat (length_t token)) output match_pos) (decompress_loop rest))
      else decompress_loop rest output)"

definition decompress :: "LZ77Compressor \<Rightarrow> Token list \<Rightarrow> error + byte list" where
  "decompress c tokens = decompress_loop tokens []"

subsection \<open>class TokenEncoder\<close>

definition encode_token :: "Token \<Rightarrow> error + byte list" where
  "encode_token token =
     (if type_t token = LITERAL
      then
        let byte_val = literal_t token AND 0xFF
        in bind_e (pack_B 0x00) (\<lambda>a. bind_e (pack_B byte_val) (\<lambda>b. Inr (a @ b)))
      else
        let encoded_length = length_t token - int MIN_MATCH
        in if \<not> length_t token \<le> int MAX_MATCH then Inl AssertionError
           else if \<not> distance_t token \<le> int WINDOW_SIZE then Inl AssertionError
           else bind_e (pack_B 0x01) (\<lambda>a.
                bind_e (pack_B encoded_length) (\<lambda>b.
                bind_e (pack_H (distance_t token)) (\<lambda>c. Inr (a @ b @ c)))))"

fun encode_loop :: "Token list \<Rightarrow> byte list \<Rightarrow> error + byte list" where
  "encode_loop [] output = Inr output"
| "encode_loop (token # rest) output =
     bind_e (encode_token token) (\<lambda>bs. encode_loop rest (output @ bs))"

definition encode_tokens :: "Token list \<Rightarrow> error + byte list" where
  "encode_tokens tokens = encode_loop tokens []"

text \<open>
  \<open>decode_tokens\<close>: the cursor \<open>pos\<close>, the two \<open>break\<close>s on a token without its
  operands, and tag bytes other than 0 and 1 skipped.
\<close>

function decode_loop :: "byte list \<Rightarrow> nat \<Rightarrow> Token list \<Rightarrow> error + Token list" where
  "decode_loop data pos tokens =
     (if pos < length data
      then
        let token_type = data ! pos;
            pos1 = pos + 1
        in if token_type = 0x00
           then (if pos1 \<ge> length data then Inr tokens
                 else
                   let literal_val = uint (data ! pos1)
                   in decode_loop data (pos1 + 1) (tokens @ [literal_token literal_val]))
           else if token_type = 0x01
           then (if pos1 + 3 > length data then Inr tokens
                 else
                   let encoded_length = uint (data ! pos1)
                   in bind_e (unpack_H (py_slice data (pos1 + 1) (pos1 + 3))) (\<lambda>distance.
                      decode_loop data (pos1 + 3)
                        (tokens @ [match_token (encoded_length + int MIN_MATCH) distance])))
           else decode_loop data pos1 tokens
      else Inr tokens)"
  by pat_completeness auto
termination
  by (relation "measure (\<lambda>(data, pos, tokens). length data - pos)") auto

declare decode_loop.simps [simp del]

definition decode_tokens :: "byte list \<Rightarrow> error + Token list" where
  "decode_tokens data = decode_loop data 0 []"

definition compress_data :: "byte list \<Rightarrow> error + byte list" where
  "compress_data data = encode_tokens (compress LZ77Compressor_init data)"

definition decompress_data :: "byte list \<Rightarrow> error + byte list" where
  "decompress_data compressed =
     bind_e (decode_tokens compressed) (\<lambda>tokens. decompress LZ77Compressor_init tokens)"

text \<open>
  A token as \<open>decode_tokens\<close> builds it and \<open>encode_tokens\<close> accepts it: a literal with
  a byte value and the other fields at their defaults, or a match whose length fits the
  one-byte field and whose distance is within the window.
\<close>

definition token_ok :: "Token \<Rightarrow> bool" where
  "token_ok t =
     ((type_t t = LITERAL \<and> length_t t = 0 \<and> distance_t t = 0 \<and> 0 \<le> literal_t t \<and> literal_t t < 256) \<or>
      (type_t t = MATCH \<and> int MIN_MATCH \<le> length_t t \<and> length_t t \<le> int MAX_MATCH \<and>
       0 \<le> distance_t t \<and> distance_t t \<le> int WINDOW_SIZE \<and> literal_t t = 0))"

text \<open>
  What \<open>find_best_match\<close> keeps in \<open>(best_length, best_distance)\<close> while it scans:
  once the length has reached \<open>MIN_MATCH\<close>, the pair is a real match at \<open>pos\<close>.
\<close>

definition match_inv :: "byte list \<Rightarrow> nat \<Rightarrow> nat \<Rightarrow> nat \<times> nat \<Rightarrow> bool" where
  "match_inv data pos window_start = (\<lambda>(l, d). MIN_MATCH \<le> l \<longrightarrow>
      (l \<le> MAX_MATCH \<and> pos + l \<le> length data \<and> 1 \<le> d \<and> d \<le> pos \<and> d \<le> pos - window_start \<and>
       (\<forall>k<l. data ! (pos - d + k) = data ! (pos + k))))"

section \<open>Range encoder (lzma\_compressor.py, class RangeEncoder)\<close>

record RangeEncoder =
  low_e :: int
  range_e :: int
  output_e :: "byte list"
  cache_e :: int
  cache_size_e :: int

definition RangeEncoder_init :: RangeEncoder where
  "RangeEncoder_init =
     \<lparr>low_e = 0, range_e = 0xFFFFFFFF, output_e = [], cache_e = - 1, cache_size_e = 0\<rparr>"

text \<open>\<open>bytearray.append(v)\<close> raises ValueError unless \<open>0 \<le> v < 256\<close>.\<close>

definition bytearray_append :: "byte list \<Rightarrow> int \<Rightarrow> error + byte list" where
  "bytearray_append out v =
     (if 0 \<le> v \<and> v < 256 then Inr (out @ [word_of_int v]) else Inl ValueError)"

text \<open>
  The source writes the same lines three times (in the loop of \<open>encode_bit\<close>, in the
  loop of \<open>finish\<close> and once more at its end); the model names them.
  \<open>flush_cache\<close> is
  \<^verbatim>\<open>if self.cache >= 0:
      self.output.append(self.cache + (self.low >> 24))
      for _ in range(self.cache_size - 1): self.output.append(0xFF)\<close>
  and \<open>shift_low\<close> is the \<open>if self.low < 0xFF000000: ... else: self.cache += 1\<close>
  around it, followed by \<open>self.low = (self.low << 8) & 0xFFFFFFFF\<close>.
\<close>

definition flush_cache :: "RangeEncoder \<Rightarrow> error + RangeEncoder" where
  "flush_cache e =
     (if cache_e e \<ge> 0
      then bind_e (bytearray_append (output_e e) (cache_e e + drop_bit 24 (low_e e))) (\<lambda>out.
           Inr (e\<lparr>output_e := out @ replicate (nat (cache_size_e e - 1)) 0xFF\<rparr>))
      else Inr e)"

definition shift_low :: "RangeEncoder \<Rightarrow> error + RangeEncoder" where
  "shift_low e =
     bind_e (if low_e e < 0xFF000000
             then bind_e (flush_cache e) (\<lambda>e'. Inr (e'\<lparr>cache_e := 0, cache_size_e := 1\<rparr>))
             else Inr (e\<lparr>cache_e := cache_e e + 1\<rparr>))
       (\<lambda>e'. Inr (e'\<lparr>low_e := push_bit 8 (low_e e') AND 0xFFFFFFFF\<rparr>))"

text \<open>The loop \<open>while self.range < self.TOP_VALUE\<close> of \<open>encode_bit\<close>.\<close>

partial_function (option) encode_normalize :: "RangeEncoder \<Rightarrow> RangeEncoder result" where
  "encode_normalize e =
     (if range_e e < TOP_VALUE
      then (case shift_low e of
              Inl err \<Rightarrow> Some (Inl err)
            | Inr e' \<Rightarrow> encode_normalize (e'\<lparr>range_e := push_bit 8 (range_e e') AND 0xFFFFFFFF\<rparr>))
      else Some (Inr e))"

declare encode_normalize.simps [code]

definition encode_bit :: "RangeEncoder \<Rightarrow> int \<Rightarrow> int \<Rightarrow> (int \<times> RangeEncoder) result" where
  "encode_bit e model b =
     (let bound = drop_bit 11 (range_e e) * model in
      if b = 0
      then bind_r (encode_normalize (e\<lparr>range_e := bound\<rparr>)) (\<lambda>e'.
             ok (model + drop_bit 5 (BIT_MODEL_TOTAL - model), e'))
      else bind_r (encode_normalize (e\<lparr>low_e := low_e e + bound, range_e := range_e e - bound\<rparr>)) (\<lambda>e'.
             ok (model - drop_bit 5 model, e')))"

definition finish :: "RangeEncoder \<Rightarrow> error + byte list" where
  "finish e =
     bind_e (bind_e (shift_low e) (\<lambda>e1. bind_e (shift_low e1) (\<lambda>e2. bind_e (shift_low e2) (\<lambda>e3.
             bind_e (shift_low e3) (\<lambda>e4. shift_low e4))))) (\<lambda>e5.
     bind_e (flush_cache e5) (\<lambda>e6. Inr (output_e e6)))"

text \<open>
  The use the tests and the coder make of the pair: every bit is coded with the current
  value of the model it names, and the model is replaced by the value \<open>encode_bit\<close> or
  \<open>decode_bit\<close> returns. \<open>steps\<close> lists, for every bit, the index of its model and,
  for the encoder, the bit.
\<close>

fun encode_bits :: "RangeEncoder \<Rightarrow> int list \<Rightarrow> (nat \<times> int) list \<Rightarrow> (RangeEncoder \<times> int list) result" where
  "encode_bits e models [] = ok (e, models)"
| "encode_bits e models ((i, b) # steps) =
     bind_r (list_get models i) (\<lambda>model.
     bind_r (encode_bit e model b) (\<lambda>(new_model, e').
     encode_bits e' (models[i := new_model]) steps))"

fun decode_bits :: "RangeDecoder \<Rightarrow> int list \<Rightarrow> nat list \<Rightarrow> (int list \<times> int list) result" where
  "decode_bits d models [] = ok ([], models)"
| "decode_bits d models (i # steps) =
     bind_r (list_get models i) (\<lambda>model.
     bind_r (lift_option (decode_bit d model)) (\<lambda>((bit, new_model), d').
     bind_r (decode_bits d' (models[i := new_model]) steps) (\<lambda>(bits, models').
     ok (bit # bits, models'))))"

definition encode_then_decode :: "int list \<Rightarrow> (nat \<times> int) list \<Rightarrow> (int list \<times> int list) result" where
  "encode_then_decode models steps =
     bind_r (encode_bits RangeEncoder_init models steps) (\<lambda>(e, models_e).
     bind_r (case finish e of Inl err \<Rightarrow> raise err | Inr out \<Rightarrow> ok out) (\<lambda>out.
     decode_bits (RangeDecoder_init out) models (map fst steps)))"

section \<open>The LZMA coder (lzma\_compressor.py, class LZMACompressor)\<close>

definition lift_e :: "error + 'a \<Rightarrow> 'a result" where
  "lift_e m = (case m of Inl err \<Rightarrow> raise err | Inr x \<Rightarrow> ok x)"

text \<open>
  \<open>tbl[i][j] = encoder.encode_bit(tbl[i][j], bit)\<close> and its decoder twin, for the
  two-dimensional tables, and the same for a one-dimensional table.
\<close>

definition encode_at2 ::
  "int list list \<Rightarrow> nat \<Rightarrow> nat \<Rightarrow> RangeEncoder \<Rightarrow> int \<Rightarrow> (int list list \<times> RangeEncoder) result" where
  "encode_at2 tbl i j enc b =
     bind_r (list_get tbl i) (\<lambda>row.
     bind_r (list_get row j) (\<lambda>model.
     bind_r (encode_bit enc model b) (\<lambda>(new_model, enc').
     ok (tbl[i := row[j := new_model]], enc'))))"

definition encode_at1 ::
  "int list \<Rightarrow> nat \<Rightarrow> RangeEncoder \<Rightarrow> int \<Rightarrow> (int list \<times> RangeEncoder) result" where
  "encode_at1 tbl i enc b =
     bind_r (list_get tbl i) (\<lambda>model.
     bind_r (encode_bit enc model b) (\<lambda>(new_model, enc').
     ok (tbl[i := new_model], enc')))"

definition decode_at2 ::
  "int list list \<Rightarrow> nat \<Rightarrow> nat \<Rightarrow> RangeDecoder \<Rightarrow> (int \<times> int list list \<times> RangeDecoder) result" where
  "decode_at2 tbl i j dec =
     bind_r (list_get tbl i) (\<lambda>row.
     bind_r (list_get row j) (\<lambda>model.
     bind_r (lift_option (decode_bit dec model)) (\<lambda>((bit, new_model), dec').
     ok (bit, tbl[i := row[j := new_model]], dec'))))"

definition decode_at1 ::
  "int list \<Rightarrow> nat \<Rightarrow> RangeDecoder \<Rightarrow> (int \<times> int list \<times> RangeDecoder) result" where
  "decode_at1 tbl i dec =
     bind_r (list_get tbl i) (\<lambda>model.
     bind_r (lift_option (decode_bit dec model)) (\<lambda>((bit, new_model), dec').
     ok (bit, tbl[i := new_model], dec')))"

subsection \<open>\_encode\_length and \_decode\_length\<close>

definition encode_length ::
  "LZMACompressor \<Rightarrow> RangeEncoder \<Rightarrow> int \<Rightarrow> nat \<Rightarrow> (LZMACompressor \<times> RangeEncoder) result" where
  "encode_length self encoder length0 pos_state =
     (let len = length0 - MIN_MATCH_lzma in
      if len < 8
      then for_range [0..<3] (\<lambda>i (self, encoder).
             let bit = drop_bit i len AND 1;
                 model_idx = nat (push_bit i 1 + bit)
             in bind_r (encode_at2 (len_low self) pos_state model_idx encoder bit) (\<lambda>(tbl, encoder').
                ok (self\<lparr>len_low := tbl\<rparr>, encoder'))) (self, encoder)
      else if len < 10
      then for_range [0..<3] (\<lambda>i (self, encoder).
             let bit = drop_bit i len AND 1;
                 model_idx = nat (push_bit i 1 + bit)
             in bind_r (encode_at2 (len_mid self) pos_state model_idx encoder bit) (\<lambda>(tbl, encoder').
                ok (self\<lparr>len_mid := tbl\<rparr>, encoder'))) (self, encoder)
      else for_range [0..<8] (\<lambda>i (self, encoder).
             let bit = drop_bit i len AND 1
             in bind_r (encode_at1 (len_high self) i encoder bit) (\<lambda>(tbl, encoder').
                ok (self\<lparr>len_high := tbl\<rparr>, encoder'))) (self, encoder))"

definition decode_length ::
  "LZMACompressor \<Rightarrow> RangeDecoder \<Rightarrow> nat \<Rightarrow> (int \<times> LZMACompressor \<times> RangeDecoder) result" where
  "decode_length self decoder pos_state =
     bind_r (for_range [0..<3] (\<lambda>i (self, decoder, len).
               let model_idx = nat (push_bit i 1)
               in bind_r (decode_at2 (len_low self) pos_state model_idx decoder) (\<lambda>(bit, tbl, decoder').
                  ok (self\<lparr>len_low := tbl\<rparr>, decoder', len OR push_bit i bit))) (self, decoder, 0))
       (\<lambda>(self, decoder, len).
     if len < 8 then ok (len + MIN_MATCH_lzma, self, decoder)
     else
       bind_r (for_range [0..<2] (\<lambda>i (self, decoder, len).
                 let model_idx = nat (push_bit i 1)
                 in bind_r (decode_at2 (len_mid self) pos_state model_idx decoder) (\<lambda>(bit, tbl, decoder').
                    ok (self\<lparr>len_mid := tbl\<rparr>, decoder', len OR push_bit (i + 3) bit))) (self, decoder, len))
         (\<lambda>(self, decoder, len).
       if len < 10 then ok (len + MIN_MATCH_lzma, self, decoder)
       else
         bind_r (for_range [0..<8] (\<lambda>i (self, decoder, len).
                   bind_r (decode_at1 (len_high self) i decoder) (\<lambda>(bit, tbl, decoder').
                   ok (self\<lparr>len_high := tbl\<rparr>, decoder', len OR push_bit i bit))) (self, decoder, 0))
           (\<lambda>(self, decoder, len). ok (len + 10 + MIN_MATCH_lzma, self, decoder))))"

subsection \<open>\_encode\_distance\<close>

definition encode_distance_bits ::
  "nat \<Rightarrow> nat \<Rightarrow> int \<Rightarrow> LZMACompressor \<Rightarrow> RangeEncoder \<Rightarrow> (LZMACompressor \<times> RangeEncoder) result" where
  "encode_distance_bits n off v self encoder =
     for_range [0..<n] (\<lambda>i (self, encoder).
       let bit = drop_bit i v AND 1
       in bind_r (encode_at1 (dist_models self) (i + off) encoder bit) (\<lambda>(tbl, encoder').
          ok (self\<lparr>dist_models := tbl\<rparr>, encoder'))) (self, encoder)"

definition encode_distance ::
  "LZMACompressor \<Rightarrow> RangeEncoder \<Rightarrow> int \<Rightarrow> (LZMACompressor \<times> RangeEncoder) result" where
  "encode_distance self encoder distance =
     (if distance \<le> 4
      then (let slot = distance - 1 in encode_distance_bits 2 0 slot self encoder)
      else if distance \<le> 127
      then encode_distance_bits 7 2 distance self encoder
      else encode_distance_bits 16 9 distance self encoder)"

subsection \<open>\_find\_longest\_match\<close>

text \<open>
  The two inner loops \<open>for length in range(..., MAX_MATCH)\<close>, each counting equal bytes
  until the end of the data or the first difference. The lists are the values that
  \<open>length\<close> still has to take.
\<close>

fun rep_run :: "byte list \<Rightarrow> nat \<Rightarrow> int \<Rightarrow> nat list \<Rightarrow> nat \<Rightarrow> error + nat" where
  "rep_run data current_pos rep_dist [] rep_len = Inr rep_len"
| "rep_run data current_pos rep_dist (len # rest) rep_len =
     (if current_pos + len \<ge> length data then Inr rep_len
      else bind_e (py_index data (int (current_pos + len))) (\<lambda>a.
           bind_e (py_index data (int (current_pos + len) - rep_dist)) (\<lambda>b.
           if a = b then rep_run data current_pos rep_dist rest (rep_len + 1) else Inr rep_len)))"

fun new_run :: "byte list \<Rightarrow> nat \<Rightarrow> nat \<Rightarrow> nat list \<Rightarrow> nat \<Rightarrow> error + nat" where
  "new_run data current_pos match_pos [] current_len = Inr current_len"
| "new_run data current_pos match_pos (len # rest) current_len =
     (if current_pos + len \<ge> length data then Inr current_len
      else bind_e (py_index data (int (match_pos + len))) (\<lambda>a.
           bind_e (py_index data (int (current_pos + len))) (\<lambda>b.
           if a = b then new_run data current_pos match_pos rest (current_len + 1) else Inr current_len)))"

text \<open>The loop over \<open>enumerate(rep_distances)\<close>; \<open>i\<close> is the index of the head of the list.\<close>

fun rep_scan :: "byte list \<Rightarrow> nat \<Rightarrow> nat \<Rightarrow> int list \<Rightarrow> nat \<times> int \<Rightarrow> error + nat \<times> int" where
  "rep_scan data current_pos i [] (max_len, best_dist) = Inr (max_len, best_dist)"
| "rep_scan data current_pos i (rep_dist # rest) (max_len, best_dist) =
     (if rep_dist = 0 \<or> int current_pos - rep_dist < 0
      then rep_scan data current_pos (i + 1) rest (max_len, best_dist)
      else bind_e (rep_run data current_pos rep_dist [0..<MAX_MATCH_lzma] 0) (\<lambda>rep_len.
           if int rep_len \<ge> MIN_MATCH_lzma \<and> rep_len > max_len
           then rep_scan data current_pos (i + 1) rest (rep_len, - (int i + 1))
           else rep_scan data current_pos (i + 1) rest (max_len, best_dist)))"

text \<open>The loop \<open>for match_pos in range(history_start, current_pos)\<close> with its \<open>break\<close>.\<close>

fun new_scan :: "byte list \<Rightarrow> nat \<Rightarrow> nat list \<Rightarrow> nat \<times> int \<Rightarrow> error + nat \<times> int" where
  "new_scan data current_pos [] (max_len, best_dist) = Inr (max_len, best_dist)"
| "new_scan data current_pos (match_pos # rest) (max_len, best_dist) =
     (let dist = int current_pos - int match_pos
      in bind_e (new_run data current_pos match_pos [max_len..<MAX_MATCH_lzma] 0) (\<lambda>current_len.
         if int current_len \<ge> MIN_MATCH_lzma \<and> current_len > max_len
         then (if current_len = MAX_MATCH_lzma then Inr (current_len, dist)
               else new_scan data current_pos rest (current_len, dist))
         else new_scan data current_pos rest (max_len, best_dist)))"

definition find_longest_match :: "byte list \<Rightarrow> nat \<Rightarrow> int list \<Rightarrow> error + nat \<times> int" where
  "find_longest_match data current_pos rep_dists =
     (let history_start = nat (max 0 (int current_pos - int WINDOW_SIZE_lzma))
      in bind_e (rep_scan data current_pos 0 rep_dists (0, 0))
           (new_scan data current_pos [history_start..<current_pos]))"

subsection \<open>compress\<close>

text \<open>\<open>xs.pop(i)\<close> for \<open>i \<ge> 0\<close>, returning the element and the shorter list.\<close>

definition list_pop :: "'a list \<Rightarrow> nat \<Rightarrow> error + 'a \<times> 'a list" where
  "list_pop xs i = (if i < length xs then Inr (xs ! i, take i xs @ drop (i + 1) xs) else Inl IndexError)"

definition literal_state :: "nat \<Rightarrow> nat" where
  "literal_state state = (if state < 4 then 0 else if state < 10 then state - 3 else state - 7)"

definition LZMA_MAGIC :: "byte list" where
  "LZMA_MAGIC = [0x4C, 0x5A, 0x4D, 0x41]"

text \<open>The literal coder of \<open>compress\<close>: the eight bits of the byte, most significant first.\<close>

definition encode_literal ::
  "LZMACompressor \<Rightarrow> RangeEncoder \<Rightarrow> nat \<Rightarrow> nat \<Rightarrow> int \<Rightarrow> (LZMACompressor \<times> RangeEncoder) result" where
  "encode_literal self encoder lit_context state byte_val =
     bind_r (for_range (rev [0..<8]) (\<lambda>bit_pos (self, encoder, current_prefix).
               let bit = drop_bit bit_pos byte_val AND 1;
                   model_idx = nat current_prefix
               in bind_r (list_get (lit_models self) lit_context) (\<lambda>plane.
                  bind_r (encode_at2 plane state model_idx encoder bit) (\<lambda>(plane', encoder').
                  ok (self\<lparr>lit_models := (lit_models self)[lit_context := plane']\<rparr>, encoder',
                      push_bit 1 current_prefix OR bit)))) (self, encoder, 1))
       (\<lambda>(self, encoder, current_prefix). ok (self, encoder))"

text \<open>
  One round of the loop \<open>while pos < len(data)\<close>; the loop state is the coder with
  its models and rep distances, the encoder, \<open>pos\<close> and \<open>state\<close>.
\<close>

definition compress_step ::
  "byte list \<Rightarrow> LZMACompressor \<times> RangeEncoder \<times> nat \<times> nat \<Rightarrow>
   (LZMACompressor \<times> RangeEncoder \<times> nat \<times> nat) result" where
  "compress_step data = (\<lambda>(self, encoder, pos, state).
     let pos_state = pos AND (NUM_POS_STATES_MAX - 1) in
     bind_r (lift_e (find_longest_match data pos (rep_distances self))) (\<lambda>(match_len, match_dist).
     let is_match_possible = (int match_len \<ge> MIN_MATCH_lzma) in
     if \<not> is_match_possible \<or> (match_len = 1 \<and> state < 7)
     then
       bind_r (encode_at2 (is_match self) pos_state state encoder 0) (\<lambda>(tbl, encoder).
       let self = self\<lparr>is_match := tbl\<rparr> in
       bind_r (if pos > 0 then lift_e (py_index data (int pos - 1)) else ok 0) (\<lambda>prev_byte.
       let lit_context = unat (drop_bit (8 - LIT_CONTEXT_BITS) prev_byte) in
       bind_r (lift_e (py_index data (int pos))) (\<lambda>byte_val.
       bind_r (encode_literal self encoder lit_context state (uint byte_val)) (\<lambda>(self, encoder).
       ok (self, encoder, pos + 1, literal_state state)))))
     else
       bind_r (encode_at2 (is_match self) pos_state state encoder 1) (\<lambda>(tbl, encoder).
       let self = self\<lparr>is_match := tbl\<rparr>;
           is_rep_match = (match_dist < 0)
       in
       if is_rep_match
       then
         bind_r (encode_at2 (is_rep self) pos_state state encoder 1) (\<lambda>(tbl, encoder).
         let self = self\<lparr>is_rep := tbl\<rparr>;
             rep_idx = - (match_dist + 1);
             bit_rep0 = (if rep_idx > 0 then 1 else 0)
         in
         bind_r (encode_at2 (is_rep0 self) pos_state state encoder bit_rep0) (\<lambda>(tbl, encoder).
         let self = self\<lparr>is_rep0 := tbl\<rparr> in
         bind_r (if rep_idx = 0
                 then (let is_long = (if match_len > 1 then 1 else 0)
                       in bind_r (encode_at2 (is_rep0_long self) pos_state state encoder is_long) (\<lambda>(tbl, encoder).
                          ok (self\<lparr>is_rep0_long := tbl\<rparr>, encoder)))
                 else (let bit_rep1 = (if rep_idx = 2 then 1 else 0)
                       in bind_r (encode_at2 (is_rep1 self) pos_state state encoder bit_rep1) (\<lambda>(tbl, encoder).
                          ok (self\<lparr>is_rep1 := tbl\<rparr>, encoder)))) (\<lambda>(self, encoder).
         bind_r (lift_e (list_pop (rep_distances self) (nat rep_idx))) (\<lambda>(current_dist, rest).
         let self = self\<lparr>rep_distances := current_dist # rest\<rparr> in
         bind_r (encode_length self encoder (int match_len) pos_state) (\<lambda>(self, encoder).
         ok (self, encoder, pos + match_len, (if state < 7 then 10 else 11)))))))
       else
         bind_r (encode_at2 (is_rep self) pos_state state encoder 0) (\<lambda>(tbl, encoder).
         let self = self\<lparr>is_rep := tbl\<rparr> in
         bind_r (lift_e (list_pop (rep_distances self) (NUM_REP_DISTANCES - 1))) (\<lambda>(dropped, rest).
         let self = self\<lparr>rep_distances := match_dist # rest\<rparr> in
         bind_r (encode_length self encoder (int match_len) pos_state) (\<lambda>(self, encoder).
         bind_r (encode_distance self encoder match_dist) (\<lambda>(self, encoder).
         ok (self, encoder, pos + match_len, 7))))))))"

partial_function (option) compress_loop_lzma ::
  "byte list \<Rightarrow> LZMACompressor \<times> RangeEncoder \<times> nat \<times> nat \<Rightarrow>
   (LZMACompressor \<times> RangeEncoder \<times> nat \<times> nat) result" where
  "compress_loop_lzma data st =
     (if fst (snd (snd st)) < length data
      then (case compress_step data st of
              None \<Rightarrow> None
            | Some (Inl err) \<Rightarrow> Some (Inl err)
            | Some (Inr st') \<Rightarrow> compress_loop_lzma data st')
      else Some (Inr st))"

declare compress_loop_lzma.simps [code]

definition compress_lzma_bespoke :: "LZMACompressor \<Rightarrow> byte list \<Rightarrow> byte list result" where
  "compress_lzma_bespoke self data =
     (if length data = 0 then bind_r (lift_e (pack_Q 0)) (\<lambda>size. ok (LZMA_MAGIC @ size))
      else
        bind_r (lift_e (pack_Q (int (length data)))) (\<lambda>size.
        let header = LZMA_MAGIC @ size;
            self = self\<lparr>rep_distances := replicate NUM_REP_DISTANCES 1\<rparr>
        in bind_r (compress_loop_lzma data (self, RangeEncoder_init, 0, 0)) (\<lambda>(self, encoder, pos, state).
           bind_r (lift_e (finish encoder)) (\<lambda>compressed.
           ok (header @ compressed)))))"

subsection \<open>decompress\<close>

text \<open>
  The copy loop \<open>for _ in range(match_len)\<close> of \<open>decompress\<close>, which stops at
  \<open>original_size\<close> and raises ValueError on a source index outside the output.
\<close>

fun apply_match :: "nat \<Rightarrow> int \<Rightarrow> int \<Rightarrow> byte list \<Rightarrow> error + byte list" where
  "apply_match 0 distance original_size res = Inr res"
| "apply_match (Suc n) distance original_size res =
     (if int (length res) \<ge> original_size then Inr res
      else
        let copy_idx = int (length res) - distance
        in if copy_idx < 0 \<or> copy_idx \<ge> int (length res) then Inl ValueError
           else bind_e (py_index res copy_idx) (\<lambda>b. apply_match n distance original_size (res @ [b])))"

definition decode_literal ::
  "LZMACompressor \<Rightarrow> RangeDecoder \<Rightarrow> nat \<Rightarrow> nat \<Rightarrow> (int \<times> LZMACompressor \<times> RangeDecoder) result" where
  "decode_literal self decoder lit_context state =
     bind_r (for_range (rev [0..<8]) (\<lambda>bit_pos (self, decoder, byte_val, current_prefix).
               let model_idx = nat current_prefix
               in bind_r (list_get (lit_models self) lit_context) (\<lambda>plane.
                  bind_r (decode_at2 plane state model_idx decoder) (\<lambda>(bit, plane', decoder').
                  ok (self\<lparr>lit_models := (lit_models self)[lit_context := plane']\<rparr>, decoder',
                      byte_val OR push_bit bit_pos bit,
                      push_bit 1 current_prefix OR bit)))) (self, decoder, 0, 1))
       (\<lambda>(self, decoder, byte_val, current_prefix). ok (byte_val, self, decoder))"

text \<open>
  One round of the loop \<open>while len(result) < original_size\<close>, up to the test that
  leaves the loop when the input is used up; the loop state is the coder, the decoder,
  \<open>result\<close> and \<open>state\<close>.
\<close>

definition decompress_step ::
  "int \<Rightarrow> LZMACompressor \<times> RangeDecoder \<times> byte list \<times> nat \<Rightarrow>
   (LZMACompressor \<times> RangeDecoder \<times> byte list \<times> nat) result" where
  "decompress_step original_size = (\<lambda>(self, decoder, res, state).
     let pos = length res;
         pos_state = pos AND (NUM_POS_STATES_MAX - 1)
     in
     bind_r (decode_at2 (is_match self) pos_state state decoder) (\<lambda>(match_bit, tbl, decoder).
     let self = self\<lparr>is_match := tbl\<rparr> in
     if match_bit = 0
     then
       bind_r (if pos > 0 then lift_e (py_index res (int pos - 1)) else ok 0) (\<lambda>prev_byte.
       let lit_context = unat (drop_bit (8 - LIT_CONTEXT_BITS) prev_byte) in
       bind_r (decode_literal self decoder lit_context state) (\<lambda>(byte_val, self, decoder).
       bind_r (lift_e (bytearray_append res byte_val)) (\<lambda>res.
       ok (self, decoder, res, literal_state state))))
     else
       bind_r (decode_at2 (is_rep self) pos_state state decoder) (\<lambda>(rep_bit, tbl, decoder).
       let self = self\<lparr>is_rep := tbl\<rparr> in
       bind_r
         (if rep_bit = 1
          then
            bind_r (decode_at2 (is_rep0 self) pos_state state decoder) (\<lambda>(bit_rep0, tbl, decoder).
            let self = self\<lparr>is_rep0 := tbl\<rparr> in
            bind_r (if bit_rep0 = 0
                    then bind_r (decode_at2 (is_rep0_long self) pos_state state decoder) (\<lambda>(is_long, tbl, decoder).
                         ok (0, self\<lparr>is_rep0_long := tbl\<rparr>, decoder))
                    else bind_r (decode_at2 (is_rep1 self) pos_state state decoder) (\<lambda>(bit_rep1, tbl, decoder).
                         ok ((if bit_rep1 = 0 then 1 else 2), self\<lparr>is_rep1 := tbl\<rparr>, decoder)))
              (\<lambda>(rep_idx, self, decoder).
            bind_r (lift_e (list_pop (rep_distances self) rep_idx)) (\<lambda>(current_dist, rest).
            let self = self\<lparr>rep_distances := current_dist # rest\<rparr> in
            bind_r (decode_length self decoder pos_state) (\<lambda>(match_len, self, decoder).
            ok (match_len, self, decoder, (if state < 7 then 10 else 11))))))
          else
            bind_r (decode_length self decoder pos_state) (\<lambda>(match_len, self, decoder).
            bind_r (decode_distance self decoder) (\<lambda>(match_dist, self, decoder).
            let match_dist = (if match_dist = 0 then 1 else match_dist) in
            bind_r (lift_e (list_pop (rep_distances self) (NUM_REP_DISTANCES - 1))) (\<lambda>(dropped, rest).
            let self = self\<lparr>rep_distances := match_dist # rest\<rparr> in
            ok (match_len, self, decoder, 7)))))
         (\<lambda>(match_len, self, decoder, state).
       bind_r (list_get (rep_distances self) 0) (\<lambda>distance.
       bind_r (lift_e (apply_match (nat match_len) distance original_size res)) (\<lambda>res.
       ok (self, decoder, res, state)))))))"

partial_function (option) decompress_loop_lzma ::
  "int \<Rightarrow> LZMACompressor \<times> RangeDecoder \<times> byte list \<times> nat \<Rightarrow>
   (LZMACompressor \<times> RangeDecoder \<times> byte list \<times> nat) result" where
  "decompress_loop_lzma original_size st =
     (if int (length (fst (snd (snd st)))) < original_size
      then (case decompress_step original_size st of
              None \<Rightarrow> None
            | Some (Inl err) \<Rightarrow> Some (Inl err)
            | Some (Inr st') \<Rightarrow>
                if pos_d (fst (snd st')) \<ge> length (data_d (fst (snd st'))) \<and>
                   int (length (fst (snd (snd st')))) < original_size
                then Some (Inr st')
                else decompress_loop_lzma original_size st')
      else Some (Inr st))"

declare decompress_loop_lzma.simps [code]

text \<open>
  The guard \<open>not data.startswith(b'LZMA') or len(data) < 12\<close> at the head of
  \<open>decompress\<close>: the buffer has no magic or is too short for the size field.
\<close>

definition no_lzma_header :: "byte list \<Rightarrow> bool" where
  "no_lzma_header data = (\<not> (take 4 data = LZMA_MAGIC) \<or> length data < 12)"

definition decompress_lzma_bespoke :: "LZMACompressor \<Rightarrow> byte list \<Rightarrow> byte list result" where
  "decompress_lzma_bespoke self data =
     (if no_lzma_header data then ok []
      else
        bind_r (lift_e (unpack_Q (py_slice data 4 12))) (\<lambda>original_size.
        if original_size = 0 then ok []
        else
          let decoder = RangeDecoder_init (drop 12 data);
              self = self\<lparr>rep_distances := replicate NUM_REP_DISTANCES 1\<rparr>
          in bind_r (decompress_loop_lzma original_size (self, decoder, [], 0)) (\<lambda>(self, decoder, res, state).
             ok (take (nat original_size) res))))"

section \<open>Facts about results\<close>

lemma bind_r_ok [simp]: "bind_r (ok x) f = f x"
  by (simp add: bind_r_def ok_def)

lemma bind_r_raise [simp]: "bind_r (raise e) f = raise e"
  by (simp add: bind_r_def raise_def)

lemma bind_r_None [simp]: "bind_r None f = None"
  by (simp add: bind_r_def)

lemma bind_r_eq_ok:
  "bind_r m f = ok y \<longleftrightarrow> (\<exists>x. m = ok x \<and> f x = ok y)"
  by (cases m) (auto simp: bind_r_def ok_def split: sum.splits)

lemma ok_neq [simp]: "ok x \<noteq> raise e" "raise e \<noteq> ok x" "ok x \<noteq> None" "raise e \<noteq> None"
  "(ok x = ok y) = (x = y)"
  by (auto simp: ok_def raise_def)

lemma lift_option_eq_ok: "lift_option m = ok x \<longleftrightarrow> m = Some x"
  by (cases m) (auto simp: lift_option_def ok_def)

lemma upt2: "[0..<2] = [0, Suc 0]"
  by (simp add: upt_rec)

lemma and_mask32: "(x::int) AND 0xFFFFFFFF = x mod 2 ^ 32"
proof -
  have "(0xFFFFFFFF::int) = mask 32" by (simp add: mask_eq_exp_minus_1)
  then show ?thesis by (simp only: flip: take_bit_eq_mask) (simp add: take_bit_eq_mod)
qed

section \<open>The range decoder returns bits and keeps its range normalised\<close>

lemma decode_bit_bit:
  "decode_bit d m = Some ((b, nm), d') \<Longrightarrow> b = 0 \<or> b = 1"
  by (auto simp: decode_bit_def Let_def split: if_splits)

text \<open>
  The loop leaves as soon as the range has reached \<open>TOP_VALUE\<close>; from a positive
  range below \<open>2^32\<close> every round multiplies it by 256, so it leaves.
\<close>

lemma decode_normalize_total:
  assumes "0 < range_d d" "range_d d < 2 ^ 32"
  shows "\<exists>d'. decode_normalize d = Some d' \<and> TOP_VALUE \<le> range_d d' \<and> range_d d' < 2 ^ 32"
  using assms
proof (induction "nat (TOP_VALUE - range_d d)" arbitrary: d rule: less_induct)
  case less
  show ?case
  proof (cases "range_d d < TOP_VALUE")
    case False
    with less.prems show ?thesis by (subst decode_normalize.simps) simp
  next
    case True
    define d1 where "d1 = (snd (read_byte d))
                \<lparr>code_d := push_bit 8 (code_d d) OR fst (read_byte d),
                 range_d := push_bit 8 (range_d d) AND 0xFFFFFFFF\<rparr>"
    have r1: "range_d d1 = range_d d * 256"
      unfolding d1_def using True less.prems
      by (simp add: push_bit_eq_mult and_mask32 TOP_VALUE_def)
    then have "\<exists>d'. decode_normalize d1 = Some d' \<and> TOP_VALUE \<le> range_d d' \<and> range_d d' < 2 ^ 32"
      using True less.prems by (intro less.hyps) (auto simp: TOP_VALUE_def)
    then show ?thesis using True
      by (subst decode_normalize.simps) (simp add: d1_def)
  qed
qed

lemma decode_bit_total:
  assumes "TOP_VALUE \<le> range_d d" "range_d d < 2 ^ 32" "0 < m" "m < 2048"
  shows "\<exists>b nm d'. decode_bit d m = Some ((b, nm), d') \<and> TOP_VALUE \<le> range_d d' \<and> range_d d' < 2 ^ 32"
proof -
  define q where "q = range_d d div 2048"
  have q: "8192 \<le> q" "q * 2048 \<le> range_d d"
    using assms(1) by (auto simp: q_def TOP_VALUE_def)
  have b1: "0 < q * m" using q(1) assms(3) by simp
  have "q * m \<le> q * 2047" using assms(4) q(1) by (intro mult_left_mono) auto
  then have b2: "q * m < range_d d" using q by linarith
  have A: "\<exists>d'. decode_normalize (d\<lparr>range_d := q * m\<rparr>) = Some d' \<and> TOP_VALUE \<le> range_d d' \<and> range_d d' < 2 ^ 32"
    using b1 b2 assms(2) by (intro decode_normalize_total) auto
  have B: "\<exists>d'. decode_normalize (d\<lparr>code_d := code_d d - q * m, range_d := range_d d - q * m\<rparr>) = Some d' \<and> TOP_VALUE \<le> range_d d' \<and> range_d d' < 2 ^ 32"
    using b1 b2 assms(2) by (intro decode_normalize_total) auto
  show ?thesis
    using A B by (auto simp: decode_bit_def Let_def drop_bit_eq_div q_def)
qed

section \<open>The decoded distance\<close>

lemma decode_distance_bit_ok:
  assumes "decode_distance_bit off i (s, d, acc) = ok (s', d', acc')"
  shows "\<exists>b. (b = 0 \<or> b = 1) \<and> acc' = acc OR push_bit i b"
  using assms
  by (auto simp: decode_distance_bit_def bind_r_eq_ok lift_option_eq_ok dest: decode_bit_bit)

lemma slot_range:
  assumes "b0 = 0 \<or> b0 = (1::int)" "b1 = 0 \<or> b1 = (1::int)"
  shows "0 \<le> (0 OR push_bit 0 b0) OR push_bit (Suc 0) b1 \<and> (0 OR push_bit 0 b0) OR push_bit (Suc 0) b1 < 4"
  using assms by auto

lemma decode_distance_safe:
  assumes "decode_distance s d = ok (dist, s', d')"
  shows "1 \<le> dist \<and> dist \<le> 4"
proof -
  from assms obtain s1 d1 slot where
    loop: "for_range [0..<2] (decode_distance_bit 0) (s, d, 0) = ok (s1, d1, slot)"
    and ret: "(if slot < 4 then ok (slot + 1, s1, d1) else
       bind_r (for_range [0..<7] (decode_distance_bit 2) (s1, d1, 0)) (\<lambda>(self, decoder, distance).
       if distance \<le> 127 then ok (distance + 1, self, decoder)
       else
         bind_r (for_range [0..<16] (decode_distance_bit 9) (self, decoder, 0)) (\<lambda>(self, decoder, distance).
         ok (distance + 128 + 1, self, decoder)))) = ok (dist, s', d')"
    unfolding decode_distance_def bind_r_eq_ok by auto
  from loop obtain sa da a where
    st0: "decode_distance_bit 0 0 (s, d, 0) = ok (sa, da, a)"
    and st1: "decode_distance_bit 0 (Suc 0) (sa, da, a) = ok (s1, d1, slot)"
    unfolding upt2 by (auto simp: bind_r_eq_ok)
  from decode_distance_bit_ok[OF st0] obtain b0 where b0: "b0 = 0 \<or> b0 = 1" "a = 0 OR push_bit 0 b0" by blast
  from decode_distance_bit_ok[OF st1] obtain b1 where b1: "b1 = 0 \<or> b1 = 1" "slot = a OR push_bit (Suc 0) b1" by blast
  from slot_range[OF b0(1) b1(1)] b0(2) b1(2) have "0 \<le> slot \<and> slot < 4" by simp
  with ret show ?thesis by simp
qed

lemma decode_distance_bit_total:
  assumes "TOP_VALUE \<le> range_d d" "range_d d < 2 ^ 32" "i + off < length (dist_models s)"
    "0 < dist_models s ! (i + off)" "dist_models s ! (i + off) < 2048"
  shows "\<exists>b nm d'. decode_distance_bit off i (s, d, acc) =
            ok (s\<lparr>dist_models := (dist_models s)[i + off := nm]\<rparr>, d', acc OR push_bit i b)
          \<and> TOP_VALUE \<le> range_d d' \<and> range_d d' < 2 ^ 32"
proof -
  from decode_bit_total[OF assms(1,2,4,5)] obtain b nm d' where
    "decode_bit d (dist_models s ! (i + off)) = Some ((b, nm), d')" "TOP_VALUE \<le> range_d d'" "range_d d' < 2 ^ 32"
    by blast
  then show ?thesis using assms(3)
    by (auto simp: decode_distance_bit_def list_get_def list_set_def lift_option_def ok_def bind_r_def)
qed

lemma decode_distance_total:
  assumes "TOP_VALUE \<le> range_d d" "range_d d < 2 ^ 32" "2 \<le> length (dist_models s)"
    "\<forall>i<2. 0 < dist_models s ! i \<and> dist_models s ! i < 2048"
  shows "\<exists>dist s' d'. decode_distance s d = ok (dist, s', d')"
proof -
  have p0: "0 + 0 < length (dist_models s)" "0 < dist_models s ! (0 + 0)" "dist_models s ! (0 + 0) < 2048"
    using assms(3,4) by auto
  from decode_distance_bit_total[OF assms(1,2) p0, of 0] obtain b0 nm0 d0 where
    st0: "decode_distance_bit 0 0 (s, d, 0) = ok (s\<lparr>dist_models := (dist_models s)[0 + 0 := nm0]\<rparr>, d0, 0 OR push_bit 0 b0)"
    and r0: "TOP_VALUE \<le> range_d d0" "range_d d0 < 2 ^ 32"
    by blast
  define s0 where "s0 = s\<lparr>dist_models := (dist_models s)[0 + 0 := nm0]\<rparr>"
  have p1: "Suc 0 + 0 < length (dist_models s0)" "0 < dist_models s0 ! (Suc 0 + 0)" "dist_models s0 ! (Suc 0 + 0) < 2048"
    using assms(3,4) by (auto simp: s0_def)
  from decode_distance_bit_total[OF r0 p1] obtain b1 nm1 d1 where
    st1: "decode_distance_bit 0 (Suc 0) (s0, d0, 0 OR push_bit 0 b0) =
       ok (s0\<lparr>dist_models := (dist_models s0)[Suc 0 + 0 := nm1]\<rparr>, d1, (0 OR push_bit 0 b0) OR push_bit (Suc 0) b1)"
    by blast
  from decode_distance_bit_ok[OF st0] obtain c0 where c0: "c0 = 0 \<or> c0 = 1" "0 OR push_bit 0 b0 = 0 OR push_bit 0 c0" by blast
  from decode_distance_bit_ok[OF st1] obtain c1 where c1: "c1 = 0 \<or> c1 = 1"
     "(0 OR push_bit 0 b0) OR push_bit (Suc 0) b1 = (0 OR push_bit 0 b0) OR push_bit (Suc 0) c1" by blast
  from slot_range[OF c0(1) c1(1)] c0(2) c1(2) have lt: "(0 OR push_bit 0 b0) OR push_bit (Suc 0) b1 < 4" by simp
  have loop: "for_range [0..<2] (decode_distance_bit 0) (s, d, 0) =
     ok (s0\<lparr>dist_models := (dist_models s0)[Suc 0 + 0 := nm1]\<rparr>, d1, (0 OR push_bit 0 b0) OR push_bit (Suc 0) b1)"
    unfolding upt2 using st0 st1 by (simp add: s0_def)
  show ?thesis unfolding decode_distance_def loop using lt by simp
qed

text \<open>
  Claim C10. Whatever the input bytes, the decoder state and the values of the models,
  a distance returned by \<open>_decode_distance\<close> is at least 1 (it is one of 1, 2, 3, 4,
  because the two-bit slot is always below 4 and the function returns \<open>slot + 1\<close>
  there), so the test \<open>match_dist == 0\<close> that follows the call in \<open>decompress\<close>
  is never true. And the call does return a distance whenever the decoder's range is
  normalised, as it is after the constructor and after every \<open>decode_bit\<close>, and the
  two models it reads are proper probabilities (strictly between 0 and 2048).
\<close>

theorem decode_distance_at_least_one:
  "(\<forall>dist s' d'. decode_distance s d = ok (dist, s', d') \<longrightarrow> 1 \<le> dist \<and> dist \<noteq> 0) \<and>
   (TOP_VALUE \<le> range_d d \<and> range_d d < 2 ^ 32 \<and> 2 \<le> length (dist_models s) \<and>
    (\<forall>i<2. 0 < dist_models s ! i \<and> dist_models s ! i < 2048)
    \<longrightarrow> (\<exists>dist s' d'. decode_distance s d = ok (dist, s', d') \<and> 1 \<le> dist))"
proof (intro conjI allI impI)
  fix dist s' d'
  assume "decode_distance s d = ok (dist, s', d')"
  from decode_distance_safe[OF this] show "1 \<le> dist" "dist \<noteq> 0" by auto
next
  assume h: "TOP_VALUE \<le> range_d d \<and> range_d d < 2 ^ 32 \<and> 2 \<le> length (dist_models s) \<and>
    (\<forall>i<2. 0 < dist_models s ! i \<and> dist_models s ! i < 2048)"
  then obtain dist s' d' where r: "decode_distance s d = ok (dist, s', d')"
    using decode_distance_total[of d s] by blast
  with decode_distance_safe[OF r] show "\<exists>dist s' d'. decode_distance s d = ok (dist, s', d') \<and> 1 \<le> dist"
    by blast
qed

theorem decode_distance_at_least_one_witness:
  "TOP_VALUE \<le> range_d (RangeDecoder_init []) \<and> range_d (RangeDecoder_init []) < 2 ^ 32 \<and>
   2 \<le> length (dist_models (LZMACompressor_init 6)) \<and>
   dist_models (LZMACompressor_init 6) ! 0 = 1024 \<and> dist_models (LZMACompressor_init 6) ! 1 = 1024 \<and>
   (\<exists>dist s' d'. decode_distance (LZMACompressor_init 6) (RangeDecoder_init []) = ok (dist, s', d') \<and> 1 \<le> dist)"
proof -
  have r: "range_d (RangeDecoder_init []) = 0xFFFFFFFF"
    by (simp add: RangeDecoder_init_def init_step_def read_byte_def eval_nat_numeral)
  have m: "dist_models (LZMACompressor_init 6) = replicate 64 1024"
    by (simp add: LZMACompressor_init_def)
  have h: "TOP_VALUE \<le> range_d (RangeDecoder_init []) \<and> range_d (RangeDecoder_init []) < 2 ^ 32 \<and>
   2 \<le> length (dist_models (LZMACompressor_init 6)) \<and>
   (\<forall>i<2. 0 < dist_models (LZMACompressor_init 6) ! i \<and> dist_models (LZMACompressor_init 6) ! i < 2048)"
    unfolding r m by (simp add: TOP_VALUE_def)
  have v: "dist_models (LZMACompressor_init 6) ! 0 = 1024" "dist_models (LZMACompressor_init 6) ! 1 = 1024"
    unfolding m by simp_all
  from h v decode_distance_at_least_one[of "LZMACompressor_init 6" "RangeDecoder_init []"]
  show ?thesis by blast
qed

section \<open>LZ77: what a match is, and the token stream\<close>

lemma bind_e_Inr [simp]: "bind_e (Inr x) f = f x"
  by (simp add: bind_e_def)

lemma bind_e_Inl [simp]: "bind_e (Inl e) f = Inl e"
  by (simp add: bind_e_def)

lemma bind_e_eq_Inr: "bind_e m f = Inr y \<longleftrightarrow> (\<exists>x. m = Inr x \<and> f x = Inr y)"
  by (cases m) auto

lemma length_le_bytes [simp]: "length (le_bytes n v) = n"
  by (induction n arbitrary: v) auto

lemma le_value_le_bytes: "0 \<le> v \<Longrightarrow> v < 256 ^ n \<Longrightarrow> le_value (le_bytes n v) = v"
proof (induction n arbitrary: v)
  case 0
  then show ?case by simp
next
  case (Suc n)
  have "uint (word_of_int v :: byte) = v mod 256"
    by (simp add: uint_word_of_int)
  moreover have "le_value (le_bytes n (v div 256)) = v div 256"
    using Suc.prems by (intro Suc.IH) (auto simp: div_less_iff_less_mult pos_imp_zdiv_nonneg_iff)
  ultimately show ?case by simp
qed

lemma unpack_pack: "pack n v = Inr bs \<Longrightarrow> unpack n bs = Inr v"
  by (auto simp: pack_def unpack_def le_value_le_bytes split: if_splits)

lemma pack_length: "pack n v = Inr bs \<Longrightarrow> length bs = n"
  by (auto simp: pack_def split: if_splits)

lemma extend_match_props:
  "match_length \<le> extend_match data c p mx match_length \<and>
   (match_length \<le> mx \<longrightarrow> extend_match data c p mx match_length \<le> mx) \<and>
   (\<forall>k. match_length \<le> k \<and> k < extend_match data c p mx match_length \<longrightarrow> data ! (c + k) = data ! (p + k))"
proof (induction data c p mx match_length rule: extend_match.induct)
  case (1 data c p mx ml)
  show ?case
  proof (cases "ml < mx \<and> data ! (c + ml) = data ! (p + ml)")
    case True
    with 1 have IH: "ml + 1 \<le> extend_match data c p mx (ml + 1)"
      "extend_match data c p mx (ml + 1) \<le> mx"
      "\<forall>k. ml + 1 \<le> k \<and> k < extend_match data c p mx (ml + 1) \<longrightarrow> data ! (c + k) = data ! (p + k)"
      by auto
    have eq: "extend_match data c p mx ml = extend_match data c p mx (ml + 1)"
      using True by (subst extend_match.simps) simp
    have "\<And>k. ml \<le> k \<Longrightarrow> k < extend_match data c p mx (ml + 1) \<Longrightarrow> data ! (c + k) = data ! (p + k)"
    proof -
      fix k assume k: "ml \<le> k" "k < extend_match data c p mx (ml + 1)"
      show "data ! (c + k) = data ! (p + k)"
      proof (cases "k = ml")
        case True
        with \<open>ml < mx \<and> data ! (c + ml) = data ! (p + ml)\<close> show ?thesis by simp
      next
        case False
        with k have "ml + 1 \<le> k" by simp
        with IH(3) k(2) show ?thesis by blast
      qed
    qed
    with IH eq show ?thesis by auto
  next
    case False
    then have "extend_match data c p mx ml = ml"
      by (subst extend_match.simps) auto
    then show ?thesis by auto
  qed
qed

lemma scan_candidates_inv:
  "match_inv data pos ws best \<Longrightarrow> match_inv data pos ws (scan_candidates data pos ws cands best)"
proof (induction data pos ws cands best rule: scan_candidates.induct)
  case (1 data pos ws bl bd)
  then show ?case by simp
next
  case (2 data pos ws c rest bl bd)
  have new: "match_inv data pos ws (extend_match data c pos (min MAX_MATCH (length data - pos)) 0, pos - c)"
    if "\<not> (c \<ge> pos \<or> c < ws)"
    using that extend_match_props[of 0 data c pos "min MAX_MATCH (length data - pos)"]
    by (auto simp: match_inv_def MIN_MATCH_def)
  show ?case using 2 new by (auto simp: Let_def)
qed

lemma find_best_match_props:
  assumes "find_best_match m pos ws = Some (l, d)"
  shows "MIN_MATCH \<le> l \<and> l \<le> MAX_MATCH \<and> pos + l \<le> length (data_m m) \<and> 1 \<le> d \<and> d \<le> pos \<and> d \<le> pos - ws \<and>
       (\<forall>k<l. data_m m ! (pos - d + k) = data_m m ! (pos + k))"
proof -
  have "match_inv (data_m m) pos ws (MIN_MATCH - 1, 0)"
    by (simp add: match_inv_def MIN_MATCH_def)
  from scan_candidates_inv[OF this, of "rev (hash_chains m (hash3 (data_m m) pos))"] assms
  show ?thesis
    by (auto simp: find_best_match_def Let_def match_inv_def split: if_splits prod.splits)
qed

lemma fold_data_m:
  "(\<And>x m. data_m (f x m) = data_m m) \<Longrightarrow> data_m (fold f xs m0) = data_m m0"
  by (induction xs arbitrary: m0) auto

lemma data_m_update [simp]: "data_m (update m data) = data"
  by (simp add: update_def Let_def fold_data_m)

lemma compress_loop_step:
  assumes "pos < length data"
  shows "(\<forall>acc. compress_loop c data pos acc =
               compress_loop c data (pos + 1) (acc @ [literal_token (uint (data ! pos))])) \<or>
         (\<exists>l d. find_best_match (matcher c) pos (nat (max 0 (int pos - int (window_size c)))) = Some (l, d) \<and>
            (\<forall>acc. compress_loop c data pos acc =
               compress_loop c data (pos + l) (acc @ [match_token (int l) (int d)])))"
proof (cases "find_best_match (matcher c) pos (nat (max 0 (int pos - int (window_size c))))")
  case None
  have "compress_loop c data pos acc = compress_loop c data (pos + 1) (acc @ [literal_token (uint (data ! pos))])" for acc
    using assms None by (subst compress_loop.simps) simp
  then show ?thesis by blast
next
  case (Some a)
  obtain l d where a: "a = (l, d)" by (cases a)
  show ?thesis
  proof (cases "min_match c \<le> l")
    case True
    have "compress_loop c data pos acc = compress_loop c data (pos + l) (acc @ [match_token (int l) (int d)])" for acc
      using assms Some a True by (subst compress_loop.simps) simp
    with Some a show ?thesis by blast
  next
    case False
    have "compress_loop c data pos acc = compress_loop c data (pos + 1) (acc @ [literal_token (uint (data ! pos))])" for acc
      using assms Some a False by (subst compress_loop.simps) simp
    then show ?thesis by blast
  qed
qed

lemma compress_loop_acc:
  "compress_loop c data pos acc = acc @ compress_loop c data pos []"
proof (induction "length data - pos" arbitrary: pos acc rule: less_induct)
  case less
  show ?case
  proof (cases "pos < length data")
    case False
    then show ?thesis by (simp add: compress_loop.simps)
  next
    case True
    from compress_loop_step[OF True, of c] show ?thesis
    proof (elim disjE exE conjE)
      assume st: "\<forall>acc. compress_loop c data pos acc =
               compress_loop c data (pos + 1) (acc @ [literal_token (uint (data ! pos))])"
      have "length data - (pos + 1) < length data - pos" using True by simp
      from less.hyps[OF this] show ?thesis
        by (metis st append.assoc append_Nil)
    next
      fix l d
      assume fb: "find_best_match (matcher c) pos (nat (max 0 (int pos - int (window_size c)))) = Some (l, d)"
        and st: "\<forall>acc. compress_loop c data pos acc =
               compress_loop c data (pos + l) (acc @ [match_token (int l) (int d)])"
      from find_best_match_props[OF fb] have "1 \<le> l" by (simp add: MIN_MATCH_def)
      then have "length data - (pos + l) < length data - pos" using True by simp
      from less.hyps[OF this] show ?thesis
        by (metis st append.assoc append_Nil)
    qed
  qed
qed

lemma py_index_nth: "i < length xs \<Longrightarrow> py_index xs (int i) = Inr (xs ! i)"
  by (simp add: py_index_def)

lemma copy_match_take:
  assumes "1 \<le> d" "d \<le> pos" "pos + j + n \<le> length data"
    "\<forall>k<j + n. data ! (pos - d + k) = data ! (pos + k)"
  shows "copy_match n (take (pos + j) data) (int (pos + j) - int d) = Inr (take (pos + j + n) data)"
  using assms
proof (induction n arbitrary: j)
  case 0
  then show ?case by simp
next
  case (Suc n)
  have idx: "int (pos + j) - int d = int (pos + j - d)" using Suc.prems by simp
  have lt: "pos + j - d < length (take (pos + j) data)" using Suc.prems by simp
  have rd: "take (pos + j) data ! (pos + j - d) = data ! (pos + j)"
    using Suc.prems(1,2,3) Suc.prems(4)[rule_format, of j] by simp
  have tk: "take (pos + j) data @ [data ! (pos + j)] = take (pos + Suc j) data"
    using Suc.prems by (simp add: take_Suc_conv_app_nth)
  have "copy_match n (take (pos + Suc j) data) (int (pos + Suc j) - int d) = Inr (take (pos + Suc j + n) data)"
    using Suc.prems by (intro Suc.IH) auto
  moreover have "int (pos + j - d) + 1 = int (pos + Suc j) - int d"
    using Suc.prems by simp
  ultimately show ?case
    unfolding idx by (simp only: copy_match.simps py_index_nth[OF lt] rd tk bind_e_Inr add_Suc_right add_Suc)
qed

lemma decompress_compress_loop:
  assumes "data_m (matcher c) = data" "pos \<le> length data"
  shows "decompress_loop (compress_loop c data pos []) (take pos data) = Inr data"
  using assms(2)
proof (induction "length data - pos" arbitrary: pos rule: less_induct)
  case less
  show ?case
  proof (cases "pos < length data")
    case False
    with less.prems show ?thesis by (simp add: compress_loop.simps)
  next
    case True
    from compress_loop_step[OF True, of c] show ?thesis
    proof (elim disjE exE conjE)
      assume st: "\<forall>acc. compress_loop c data pos acc =
               compress_loop c data (pos + 1) (acc @ [literal_token (uint (data ! pos))])"
      have eq: "compress_loop c data pos [] = literal_token (uint (data ! pos)) # compress_loop c data (pos + 1) []"
        using st compress_loop_acc[of c data "pos + 1" "[literal_token (uint (data ! pos))]"] by simp
      have "length data - (pos + 1) < length data - pos" "pos + 1 \<le> length data" using True by simp_all
      from less.hyps[OF this] show ?thesis
        using True uint_lt2p[of "data ! pos"] unfolding eq
        by (simp add: literal_token_def take_Suc_conv_app_nth)
    next
      fix l d
      assume fb: "find_best_match (matcher c) pos (nat (max 0 (int pos - int (window_size c)))) = Some (l, d)"
        and st: "\<forall>acc. compress_loop c data pos acc =
               compress_loop c data (pos + l) (acc @ [match_token (int l) (int d)])"
      have eq: "compress_loop c data pos [] = match_token (int l) (int d) # compress_loop c data (pos + l) []"
        using st compress_loop_acc[of c data "pos + l" "[match_token (int l) (int d)]"] by simp
      note p = find_best_match_props[OF fb, unfolded assms(1)]
      from p have "1 \<le> l" by (simp add: MIN_MATCH_def)
      moreover from p have "pos + l \<le> length data" by simp
      ultimately have "length data - (pos + l) < length data - pos" "pos + l \<le> length data" by simp_all
      note ih = less.hyps[OF this]
      have cm: "copy_match l (take (pos + 0) data) (int (pos + 0) - int d) = Inr (take (pos + 0 + l) data)"
        using p by (intro copy_match_take) auto
      have "min (length data) pos = pos" using True by simp
      then show ?thesis
        unfolding eq using cm ih
        by (simp add: match_token_def MATCH_def LITERAL_def Let_def)
    qed
  qed
qed

lemma compress_loop_tokens_ok:
  assumes "data_m (matcher c) = data" "window_size c \<le> WINDOW_SIZE"
  shows "list_all token_ok (compress_loop c data pos [])"
proof (induction "length data - pos" arbitrary: pos rule: less_induct)
  case less
  show ?case
  proof (cases "pos < length data")
    case False
    then show ?thesis by (simp add: compress_loop.simps)
  next
    case True
    from compress_loop_step[OF True, of c] show ?thesis
    proof (elim disjE exE conjE)
      assume st: "\<forall>acc. compress_loop c data pos acc =
               compress_loop c data (pos + 1) (acc @ [literal_token (uint (data ! pos))])"
      have eq: "compress_loop c data pos [] = literal_token (uint (data ! pos)) # compress_loop c data (pos + 1) []"
        using st compress_loop_acc[of c data "pos + 1" "[literal_token (uint (data ! pos))]"] by simp
      have "length data - (pos + 1) < length data - pos" using True by simp
      from less.hyps[OF this] show ?thesis
        unfolding eq using uint_lt2p[of "data ! pos"]
        by (simp add: literal_token_def token_ok_def)
    next
      fix l d
      assume fb: "find_best_match (matcher c) pos (nat (max 0 (int pos - int (window_size c)))) = Some (l, d)"
        and st: "\<forall>acc. compress_loop c data pos acc =
               compress_loop c data (pos + l) (acc @ [match_token (int l) (int d)])"
      have eq: "compress_loop c data pos [] = match_token (int l) (int d) # compress_loop c data (pos + l) []"
        using st compress_loop_acc[of c data "pos + l" "[match_token (int l) (int d)]"] by simp
      note p = find_best_match_props[OF fb, unfolded assms(1)]
      from p have "1 \<le> l" by (simp add: MIN_MATCH_def)
      then have "length data - (pos + l) < length data - pos" using True p by linarith
      note ih = less.hyps[OF this]
      have "d \<le> WINDOW_SIZE" using p assms(2) by auto
      then show ?thesis
        unfolding eq using ih p
        by (simp add: match_token_def token_ok_def MATCH_def LITERAL_def)
    qed
  qed
qed

lemma and_mask8: "(x::int) AND 0xFF = x mod 256"
proof -
  have "(0xFF::int) = mask 8" by (simp add: mask_eq_exp_minus_1)
  then show ?thesis by (simp only: flip: take_bit_eq_mask) (simp add: take_bit_eq_mod)
qed

lemma le_bytes_2: "le_bytes 2 v = [word_of_int v, word_of_int (v div 256)]"
  by (simp add: numeral_2_eq_2)

lemma decode_loop_literal:
  assumes "0 \<le> v" "v < 256"
  shows "decode_loop (pre @ [0, word_of_int v] @ rest) (length pre) acc =
         decode_loop (pre @ [0, word_of_int v] @ rest) (length pre + length [0::byte, word_of_int v]) (acc @ [literal_token v])"
proof -
  have u: "uint (word_of_int v :: byte) = v" using assms by (simp add: uint_word_of_int)
  show ?thesis
    by (subst decode_loop.simps) (simp add: Let_def nth_append u)
qed

lemma decode_loop_match:
  assumes "0 \<le> e" "e < 256" "0 \<le> d" "d < 65536"
  shows "decode_loop (pre @ ([1, word_of_int e] @ le_bytes 2 d) @ rest) (length pre) acc =
         decode_loop (pre @ ([1, word_of_int e] @ le_bytes 2 d) @ rest) (length pre + length ([1, word_of_int e] @ le_bytes 2 d))
            (acc @ [match_token (e + int MIN_MATCH) d])"
proof -
  have u: "uint (word_of_int e :: byte) = e" using assms by (simp add: uint_word_of_int)
  have sl: "py_slice (pre @ ([1, word_of_int e] @ le_bytes 2 d) @ rest) (length pre + 1 + 1) (length pre + 1 + 3) = le_bytes 2 d"
    by (simp add: py_slice_def le_bytes_2)
  have un: "unpack_H (le_bytes 2 d) = Inr d"
    using assms by (simp add: unpack_H_def unpack_def le_value_le_bytes)
  have n1: "(pre @ ([1, word_of_int e] @ le_bytes 2 d) @ rest) ! length pre = 1"
    by (simp add: nth_append)
  have n2: "(pre @ ([1, word_of_int e] @ le_bytes 2 d) @ rest) ! (length pre + 1) = word_of_int e"
    by (simp add: nth_append)
  have len: "length pre < length (pre @ ([1, word_of_int e] @ le_bytes 2 d) @ rest)"
     "\<not> length pre + 1 + 3 > length (pre @ ([1, word_of_int e] @ le_bytes 2 d) @ rest)"
    "length pre + length ([1, word_of_int e] @ le_bytes 2 d) = length pre + 1 + 3"
    by simp_all
  show ?thesis
    by (subst decode_loop.simps) (simp only: n1 n2 sl un Let_def u len bind_e_Inr if_True if_False, simp)
qed

lemma encode_token_decode:
  assumes "token_ok t"
  shows "\<exists>bs. encode_token t = Inr bs \<and>
           (\<forall>pre rest acc. decode_loop (pre @ bs @ rest) (length pre) acc =
                            decode_loop (pre @ bs @ rest) (length pre + length bs) (acc @ [t]))"
proof (cases "type_t t = LITERAL")
  case True
  with assms have f: "length_t t = 0" "distance_t t = 0" "0 \<le> literal_t t" "literal_t t < 256"
    by (auto simp: token_ok_def LITERAL_def MATCH_def)
  have t: "literal_token (literal_t t) = t"
    using True f by (simp add: literal_token_def)
  have m: "literal_t t AND 0xFF = literal_t t"
    using f by (simp add: and_mask8)
  have "encode_token t = Inr [0, word_of_int (literal_t t)]"
    using True f by (simp add: encode_token_def m pack_B_def pack_def)
  moreover have "\<forall>pre rest acc. decode_loop (pre @ [0, word_of_int (literal_t t)] @ rest) (length pre) acc =
         decode_loop (pre @ [0, word_of_int (literal_t t)] @ rest) (length pre + length [0::byte, word_of_int (literal_t t)]) (acc @ [t])"
    using decode_loop_literal[OF f(3,4)] unfolding t by blast
  ultimately show ?thesis by blast
next
  case False
  with assms have f: "type_t t = MATCH" "3 \<le> length_t t" "length_t t \<le> 258"
    "0 \<le> distance_t t" "distance_t t \<le> 32768" "literal_t t = 0"
    by (auto simp: token_ok_def MIN_MATCH_def MAX_MATCH_def WINDOW_SIZE_def)
  have t: "match_token ((length_t t - 3) + int MIN_MATCH) (distance_t t) = t"
    using f by (simp add: match_token_def MIN_MATCH_def)
  have e: "encode_token t = Inr ([1, word_of_int (length_t t - 3)] @ le_bytes 2 (distance_t t))"
    using False f by (simp add: encode_token_def pack_B_def pack_H_def pack_def MIN_MATCH_def MAX_MATCH_def WINDOW_SIZE_def)
  have "0 \<le> length_t t - 3" "length_t t - 3 < 256" "0 \<le> distance_t t" "distance_t t < 65536"
    using f by auto
  from decode_loop_match[OF this] have "\<forall>pre rest acc.
      decode_loop (pre @ ([1, word_of_int (length_t t - 3)] @ le_bytes 2 (distance_t t)) @ rest) (length pre) acc =
      decode_loop (pre @ ([1, word_of_int (length_t t - 3)] @ le_bytes 2 (distance_t t)) @ rest)
        (length pre + length ([1, word_of_int (length_t t - 3)] @ le_bytes 2 (distance_t t))) (acc @ [t])"
    unfolding t by blast
  with e show ?thesis by blast
qed

lemma encode_loop_decode:
  assumes "list_all token_ok ts"
  shows "\<exists>bs. encode_loop ts out = Inr (out @ bs) \<and>
           (\<forall>pre rest acc. decode_loop (pre @ bs @ rest) (length pre) acc =
                            decode_loop (pre @ bs @ rest) (length pre + length bs) (acc @ ts))"
  using assms
proof (induction ts arbitrary: out)
  case Nil
  then show ?case by simp
next
  case (Cons t ts)
  from Cons.prems have "token_ok t" "list_all token_ok ts" by simp_all
  from encode_token_decode[OF this(1)] obtain b1 where
    b1: "encode_token t = Inr b1"
    "\<And>pre rest acc. decode_loop (pre @ b1 @ rest) (length pre) acc =
                            decode_loop (pre @ b1 @ rest) (length pre + length b1) (acc @ [t])"
    by blast
  from Cons.IH[OF \<open>list_all token_ok ts\<close>, of "out @ b1"] obtain b2 where
    b2: "encode_loop ts (out @ b1) = Inr ((out @ b1) @ b2)"
    "\<And>pre rest acc. decode_loop (pre @ b2 @ rest) (length pre) acc =
                            decode_loop (pre @ b2 @ rest) (length pre + length b2) (acc @ ts)"
    by blast
  have "encode_loop (t # ts) out = Inr (out @ (b1 @ b2))"
    using b1(1) b2(1) by simp
  moreover have "decode_loop (pre @ (b1 @ b2) @ rest) (length pre) acc =
                 decode_loop (pre @ (b1 @ b2) @ rest) (length pre + length (b1 @ b2)) (acc @ t # ts)" for pre rest acc
    using b1(2)[of pre "b2 @ rest" acc] b2(2)[of "pre @ b1" rest "acc @ [t]"]
    by (simp add: add.assoc)
  ultimately show ?case by blast
qed

lemma decode_loop_end: "length data \<le> pos \<Longrightarrow> decode_loop data pos acc = Inr acc"
  by (subst decode_loop.simps) simp

lemma decode_encode_tokens:
  assumes "list_all token_ok ts"
  shows "\<exists>bs. encode_tokens ts = Inr bs \<and> decode_tokens bs = Inr ts"
proof -
  from encode_loop_decode[OF assms, of "[]"] obtain bs where
    bs: "encode_loop ts [] = Inr bs"
    "\<And>pre rest acc. decode_loop (pre @ bs @ rest) (length pre) acc =
                            decode_loop (pre @ bs @ rest) (length pre + length bs) (acc @ ts)"
    by auto
  from bs(2)[of "[]" "[]" "[]"] have "decode_loop bs 0 [] = Inr ts"
    by (simp add: decode_loop_end)
  with bs(1) show ?thesis by (auto simp: encode_tokens_def decode_tokens_def)
qed

lemma decode_loop_total: "\<exists>ts. decode_loop data pos acc = Inr ts"
proof (induction data pos acc rule: decode_loop.induct)
  case (1 data pos tokens)
  show ?case
  proof (cases "pos < length data")
    case False
    then show ?thesis by (subst decode_loop.simps) simp
  next
    case True
    have un: "\<exists>d. unpack_H (py_slice data (pos + 1 + 1) (pos + 1 + 3)) = Inr d" if "\<not> pos + 1 + 3 > length data"
      using that by (simp add: unpack_H_def unpack_def py_slice_def)
    show ?thesis
      apply (subst decode_loop.simps)
      using True 1 un
      apply (auto simp: Let_def)
      done
  qed
qed

text \<open>
  Claim C2. For every byte buffer, the empty one included, \<open>compress_data\<close> returns
  a buffer (no assertion of \<open>encode_tokens\<close> fails and every field fits its format),
  and \<open>decompress_data\<close> of that buffer returns the original bytes.
\<close>

theorem lz77_roundtrip:
  "\<exists>c. compress_data data = Inr c \<and> decompress_data c = Inr data"
proof -
  define c0 where "c0 = LZ77Compressor_init\<lparr>matcher := update (matcher LZ77Compressor_init) data\<rparr>"
  have m: "data_m (matcher c0) = data" "window_size c0 \<le> WINDOW_SIZE"
    by (simp_all add: c0_def LZ77Compressor_init_def)
  have ok: "list_all token_ok (compress LZ77Compressor_init data)"
    using compress_loop_tokens_ok[OF m] by (simp add: compress_def c0_def)
  have dec: "decompress LZ77Compressor_init (compress LZ77Compressor_init data) = Inr data"
    using decompress_compress_loop[OF m(1), of 0]
    by (auto simp: compress_def decompress_def c0_def)
  from decode_encode_tokens[OF ok] dec show ?thesis
    by (auto simp: compress_data_def decompress_data_def)
qed

text \<open>
  Claim C4, as the code has it. \<open>decode_tokens\<close> never raises: at a tag byte whose
  operands are cut off it leaves the loop (\<open>break\<close>) and returns the tokens decoded
  so far as an ordinary result. So the encoding of any well-formed token list followed by
  a truncated token (tag 0 alone, or tag 1 with fewer than three operand bytes) decodes,
  successfully, to that token list.
\<close>

theorem decode_tokens_truncated_returns_prefix:
  "(\<exists>ts'. decode_tokens data = Inr ts') \<and>
   (list_all token_ok ts \<and> (tail = [0x00] \<or> (\<exists>ops. tail = 0x01 # ops \<and> length ops < 3))
    \<longrightarrow> (\<exists>bs. encode_tokens ts = Inr bs \<and> decode_tokens (bs @ tail) = Inr ts))"
proof (intro conjI impI)
  show "\<exists>ts'. decode_tokens data = Inr ts'"
    unfolding decode_tokens_def by (rule decode_loop_total)
next
  assume h: "list_all token_ok ts \<and> (tail = [0x00] \<or> (\<exists>ops. tail = 0x01 # ops \<and> length ops < 3))"
  from encode_loop_decode[of ts "[]"] h obtain bs where
    bs: "encode_loop ts [] = Inr bs"
    "\<And>pre rest acc. decode_loop (pre @ bs @ rest) (length pre) acc =
                            decode_loop (pre @ bs @ rest) (length pre + length bs) (acc @ ts)"
    by auto
  have "decode_loop (bs @ tail) (length bs) ts = Inr ts"
    using h by (subst decode_loop.simps) (auto simp: Let_def nth_append)
  with bs(2)[of "[]" tail "[]"] have "decode_tokens (bs @ tail) = Inr ts"
    by (simp add: decode_tokens_def)
  with bs(1) show "\<exists>bs. encode_tokens ts = Inr bs \<and> decode_tokens (bs @ tail) = Inr ts"
    by (auto simp: encode_tokens_def)
qed

theorem decode_tokens_truncated_returns_prefix_witness:
  "list_all token_ok [match_token 3 1] \<and> encode_tokens [match_token 3 1] = Inr [0x01, 0x00, 0x01, 0x00] \<and>
   decode_tokens ([0x01, 0x00, 0x01, 0x00] @ [0x01, 0x07, 0x02]) = Inr [match_token 3 1]"
proof -
  have ok: "list_all token_ok [match_token 3 1]"
    by (simp add: token_ok_def match_token_def MATCH_def LITERAL_def MIN_MATCH_def MAX_MATCH_def WINDOW_SIZE_def)
  have enc: "encode_tokens [match_token 3 1] = Inr [0x01, 0x00, 0x01, 0x00]"
    by (simp add: encode_tokens_def encode_token_def match_token_def MATCH_def LITERAL_def MIN_MATCH_def
        MAX_MATCH_def WINDOW_SIZE_def pack_B_def pack_H_def pack_def le_bytes_2)
  have "\<exists>ops. [0x01, 0x07, 0x02] = (0x01::byte) # ops \<and> length ops < 3"
    by simp
  with ok decode_tokens_truncated_returns_prefix[of "[]" "[match_token 3 1]" "[0x01, 0x07, 0x02]"] enc
  show ?thesis by auto
qed

text \<open>
  Claim C4 as stated fails: the stream \<open>00 41 01 00\<close> ends inside a match token, and
  \<open>decode_tokens\<close> returns the one literal before it as a successful result.
\<close>

theorem decode_tokens_truncated_counterexample:
  "decode_tokens [0x00, 0x41, 0x01, 0x00] = Inr [literal_token 0x41]"
  unfolding decode_tokens_def by (simp add: decode_loop.simps)

text \<open>
  Claim C5 at a failing input: after the literals \<open>A\<close>, \<open>B\<close> the output has length 2,
  and a match of length 3 at distance 3 reaches before its start. \<open>match_pos\<close> is
  \<open>-1\<close>, which Python reads from the end of the bytearray, and the decode returns
  \<open>ABBAB\<close> instead of failing.
\<close>

theorem decompress_distance_beyond_output:
  "decompress LZ77Compressor_init [literal_token 0x41, literal_token 0x42, match_token 3 3]
     = Inr [0x41, 0x42, 0x42, 0x41, 0x42]"
  by (simp add: decompress_def literal_token_def match_token_def LITERAL_def MATCH_def
      py_index_def eval_nat_numeral)

section \<open>The range coder and the bespoke LZMA coder on concrete inputs\<close>

lemma encode_bits_zero_one:
  "bind_r (encode_bits RangeEncoder_init [1024] [(0, 0), (0, 1)])
     (\<lambda>(e, models_e). ok (finish e, models_e)) = ok (Inr [0xFC, 0xE0, 0x00, 0x00], [1023])"
  by code_simp

text \<open>
  Claim C6 at a failing input: the two bits 0, 1, both coded with one adaptive model that
  starts at 1024. The encoder's first \<open>shift_low\<close> finds \<open>cache = -1\<close> and drops the
  top byte of \<open>low\<close> without writing it, the next one turns a top byte \<open>0xFF\<close> into
  \<open>cache += 1\<close>, and \<open>finish\<close> returns the four bytes \<open>FC E0 00 00\<close>; the encoder's
  model ends at 1023. The decoder reads five bytes into a 40-bit \<open>code\<close>, which is above
  every bound, and decodes 1, 1 with its model ending at 961.
\<close>

theorem range_coder_zero_one_decodes_one_one:
  "encode_then_decode [1024] [(0, 0), (0, 1)] = ok ([1, 1], [961])"
  unfolding ok_def by code_simp

lemma compress_lzma_bespoke_A:
  "compress_lzma_bespoke (LZMACompressor_init 6) [0x41] =
     ok [0x4C, 0x5A, 0x4D, 0x41, 1, 0, 0, 0, 0, 0, 0, 0, 0x7F, 0xFC, 0, 0, 0, 0]"
  unfolding ok_def by code_simp

lemma decompress_lzma_bespoke_A:
  "decompress_lzma_bespoke (LZMACompressor_init 6)
     [0x4C, 0x5A, 0x4D, 0x41, 1, 0, 0, 0, 0, 0, 0, 0, 0x7F, 0xFC, 0, 0, 0, 0] = raise ValueError"
  unfolding raise_def by code_simp

text \<open>
  Claim C1 at a failing input: the one-byte buffer \<open>b"A"\<close>. \<open>compress\<close> returns the
  header and the six bytes \<open>7F FC 00 00 00 00\<close> (the first byte of the range coder's
  \<open>low\<close>, \<open>0x20\<close>, is never written), and \<open>decompress\<close> of that buffer decodes a rep
  match at distance 1 into the empty output and raises ValueError.
\<close>

theorem lzma_bespoke_roundtrip_fails_on_A:
  "bind_r (compress_lzma_bespoke (LZMACompressor_init 6) [0x41])
          (decompress_lzma_bespoke (LZMACompressor_init 6)) = raise ValueError"
  by (simp add: compress_lzma_bespoke_A decompress_lzma_bespoke_A)

end
